theory Spec2Isabelle
  imports Complex_Main "HOL-Library.AList"
begin

section \<open>Python values used by the migration script\<close>

text \<open>
  The script \<^verbatim>\<open>scripts/migrate_dujiaoka.py\<close> moves goods, card codes (carmis) and
  coupons from a MySQL store to the AuraLogic admin API. Responses of the API are
  parsed JSON; the engine reads identifiers out of them with \<^verbatim>\<open>dict.get\<close> and Python's
  truth test. JSON numbers are identifiers here, so they are modelled as \<open>int\<close>.
\<close>

datatype json =
    JNull
  | JBool bool
  | JInt int
  | JStr string
  | JList "json list"
  | JDict "(string \<times> json) list"

text \<open>
  The subclasses of \<^verbatim>\<open>Exception\<close> that the script can meet. \<open>RuntimeError n cause\<close> is
  the terminal error of the request loop: the configured retry count and the last
  \<^verbatim>\<open>RequestException\<close> caught (\<open>None\<close> prints as \<^verbatim>\<open>None\<close>).
\<close>

datatype exn =
    RequestException string
  | HTTPError nat
  | JSONDecodeError
  | RuntimeError int "exn option"
  | AttributeError
  | TypeError
  | ValueError
  | OverflowError
  | DatabaseError string
  | OtherError string

text \<open>Python's truth test, as used by \<^verbatim>\<open>a or b\<close>, \<^verbatim>\<open>if pid:\<close> and \<^verbatim>\<open>if not vinv_id:\<close>.\<close>

fun truthy :: "json \<Rightarrow> bool" where
  "truthy JNull = False"
| "truthy (JBool b) = b"
| "truthy (JInt i) = (i \<noteq> 0)"
| "truthy (JStr s) = (s \<noteq> [])"
| "truthy (JList xs) = (xs \<noteq> [])"
| "truthy (JDict d) = (d \<noteq> [])"

text \<open>\<^verbatim>\<open>obj.get(key, default)\<close>: only a dict has \<^verbatim>\<open>get\<close>; anything else raises AttributeError.\<close>

fun py_get :: "json \<Rightarrow> string \<Rightarrow> json \<Rightarrow> exn + json" where
  "py_get (JDict d) k dflt = Inr (case map_of d k of None \<Rightarrow> dflt | Some v \<Rightarrow> v)"
| "py_get _ k dflt = Inl AttributeError"

text \<open>\<^verbatim>\<open>result.get("id") or result.get("data", {}).get("id")\<close>\<close>

definition extract_id :: "json \<Rightarrow> exn + json" where
  "extract_id result =
     (case py_get result ''id'' JNull of
        Inl e \<Rightarrow> Inl e
      | Inr a \<Rightarrow>
          if truthy a then Inr a
          else (case py_get result ''data'' (JDict []) of
                  Inl e \<Rightarrow> Inl e
                | Inr d \<Rightarrow> py_get d ''id'' JNull))"

text \<open>\<^verbatim>\<open>result.get("stock", {}).get("id")\<close>\<close>

definition extract_stock_id :: "json \<Rightarrow> exn + json" where
  "extract_stock_id result =
     (case py_get result ''stock'' (JDict []) of
        Inl e \<Rightarrow> Inl e
      | Inr d \<Rightarrow> py_get d ''id'' JNull)"

text \<open>\<^verbatim>\<open>x > 0\<close>: defined on numbers (a bool is a number), TypeError on everything else.\<close>

fun py_gt0 :: "json \<Rightarrow> exn + bool" where
  "py_gt0 (JInt i) = Inr (0 < i)"
| "py_gt0 (JBool b) = Inr b"
| "py_gt0 _ = Inl TypeError"

text \<open>\<^verbatim>\<open>str(k)\<close> of an integer, used for the keys of the mapping file.\<close>

definition digit_char :: "nat \<Rightarrow> char" where
  "digit_char d = char_of (48 + d)"

function str_nat :: "nat \<Rightarrow> string" where
  "str_nat n = (if n < 10 then [digit_char n] else str_nat (n div 10) @ [digit_char (n mod 10)])"
  by pat_completeness auto
termination
  by (relation "measure id") auto

definition str_int :: "int \<Rightarrow> string" where
  "str_int i = (if i < 0 then CHR ''-'' # str_nat (nat (- i)) else str_nat (nat i))"

section \<open>Source rows, options and the two collaborators\<close>

text \<open>
  A row of \<^verbatim>\<open>goods\<close>: the engine itself reads \<^verbatim>\<open>id\<close> and \<^verbatim>\<open>gd_name\<close>; the other columns
  are only read by \<^verbatim>\<open>_build_product_payload\<close>.
\<close>

record goods =
  g_id :: int
  gd_name :: string
  g_columns :: "(string \<times> json) list"

text \<open>
  A row of \<^verbatim>\<open>carmis\<close>: \<open>carmi\<close> is \<open>None\<close> for SQL NULL, and \<open>is_loop\<close> is the truth
  value of the column.
\<close>

record carmi_row =
  carmi :: "string option"
  is_loop :: bool

text \<open>
  A row of \<^verbatim>\<open>coupons\<close>; a column that is NULL is \<open>None\<close>, and \<^verbatim>\<open>float(None)\<close>,
  \<^verbatim>\<open>int(None)\<close> raise TypeError.
\<close>

record coupon =
  c_id :: int
  c_coupon :: string
  c_discount :: "rat option"
  c_ret :: "int option"
  c_is_open :: "int option"

record summary =
  sum_categories :: int
  sum_goods :: int
  sum_unsold_carmis :: int
  sum_coupons :: int

record MigrationOptions =
  opt_migrate_products :: bool
  opt_migrate_carmis :: bool
  opt_migrate_coupons :: bool
  dry_run :: bool
  batch_size :: int
  skip_disabled :: bool
  default_product_status :: string

text \<open>\<^verbatim>\<open>DujiaokaReader\<close>: every query can raise (the connection can drop).\<close>

record DujiaokaReader =
  get_goods :: "bool \<Rightarrow> exn + goods list"
  get_carmis_by_goods :: "int \<Rightarrow> exn + carmi_row list"
  get_carmis_count :: "int \<Rightarrow> exn + int"
  get_coupons :: "exn + coupon list"
  get_coupon_goods :: "int \<Rightarrow> exn + int list"
  get_summary :: "exn + summary"

text \<open>The payload of \<^verbatim>\<open>create_promo_code\<close>, built in \<^verbatim>\<open>migrate_coupons\<close>.\<close>

record promo_payload =
  pc_code :: string
  pc_name :: string
  pc_description_id :: int
  pc_discount_type :: string
  pc_discount_value :: rat
  pc_total_quantity :: int
  pc_status :: string
  pc_product_ids :: "json list option"
  pc_product_scope :: string

text \<open>
  The operations of \<^verbatim>\<open>AuraLogicClient\<close> that the engine calls, with the arguments the
  engine passes. The inventory payload is a fixed template around the goods id, and
  the remarks of the two stock-item calls are constants.
\<close>

datatype api_call =
    CreateProduct json
  | CreateVirtualInventory int
  | ImportVirtualStock json "string list"
  | CreateVirtualStockItem json string
  | ReserveStockItem json json
  | BindVirtualInventory json json
  | CreatePromoCode promo_payload

type_synonym api_history = "(api_call \<times> (exn + json)) list"

text \<open>
  The engine's surroundings. The client answers a call with a parsed body or raises;
  its answer may depend on every call made before. The product transform
  \<^verbatim>\<open>_build_product_payload\<close> is taken as a function that returns the payload or raises
  (its conversions \<^verbatim>\<open>float(...)\<close>, \<^verbatim>\<open>int(...)\<close> raise on NULL columns).
\<close>

record env =
  reader :: DujiaokaReader
  client :: "api_history \<Rightarrow> api_call \<Rightarrow> exn + json"
  opts :: MigrationOptions
  build_product_payload :: "goods \<Rightarrow> exn + json"

section \<open>The engine's state\<close>

datatype stat_key =
    products_created
  | products_skipped
  | products_failed
  | vinv_created
  | carmis_imported
  | bindings_created
  | coupons_created
  | coupons_failed

text \<open>One constructor for each message the engine logs, with the values it prints.\<close>

datatype log_msg =
    NoGoodsFound
  | FoundGoods nat
  | DryRunProduct string int
  | CreatedProduct string json
  | ProductNoId string
  | FailedProduct string int exn
  | NoProductsMapped
  | NoCarmisFound
  | FoundCarmis nat
  | FailedCarmis int exn
  | DryRunInventory int nat
  | InventoryNoId int
  | CreatedInventory json int
  | FailedBatch int json exn
  | FailedLoopCarmi json exn
  | ImportedLoopCarmis nat json
  | BoundInventory json json
  | FailedBind json json exn
  | NoCouponsFound
  | FoundCoupons nat
  | DryRunPromo string rat
  | CreatedPromo string
  | FailedPromo string int exn

datatype log_entry = Info log_msg | Warning log_msg | Error log_msg

text \<open>The file \<^verbatim>\<open>migration_mapping.json\<close>.\<close>

record mapping_file =
  mf_product_map :: "(string \<times> json) list"
  mf_virtual_inventory_map :: "(string \<times> json) list"

text \<open>
  \<^verbatim>\<open>MigrationEngine\<close>. A Python dict keeps insertion order and \<^verbatim>\<open>migrate_carmis\<close>
  iterates over \<^verbatim>\<open>product_map.items()\<close>, so the two maps are association lists written
  with \<open>AList.update\<close>. \<open>logged\<close> is what went to the logger, \<open>history\<close> the client
  operations invoked with their outcomes, \<open>report\<close> the rows of the result table and
  \<open>written\<close> the mapping file, once \<^verbatim>\<open>print_summary\<close> has run.
\<close>

record engine =
  product_map :: "(int \<times> json) list"
  vinv_map :: "(int \<times> json) list"
  stats :: "stat_key \<Rightarrow> int"
  logged :: "log_entry list"
  history :: api_history
  report :: "(stat_key \<times> int) list option"
  written :: "mapping_file option"

definition MigrationEngine_init :: engine where
  "MigrationEngine_init =
     \<lparr>product_map = [], vinv_map = [], stats = (\<lambda>k. 0), logged = [], history = [],
      report = None, written = None\<rparr>"

definition log_add :: "log_entry \<Rightarrow> engine \<Rightarrow> engine" where
  "log_add l s = s\<lparr>logged := logged s @ [l]\<rparr>"

text \<open>\<^verbatim>\<open>self.stats[k] += n\<close>\<close>

definition incr :: "stat_key \<Rightarrow> int \<Rightarrow> engine \<Rightarrow> engine" where
  "incr k n s = s\<lparr>stats := (stats s)(k := stats s k + n)\<rparr>"

text \<open>A call of a client operation: the outcome, and the call recorded.\<close>

definition recorded :: "api_call \<Rightarrow> exn + json \<Rightarrow> engine \<Rightarrow> engine" where
  "recorded c r s = s\<lparr>history := history s @ [(c, r)]\<rparr>"

definition call_api :: "env \<Rightarrow> api_call \<Rightarrow> engine \<Rightarrow> (exn + json) \<times> engine" where
  "call_api ev c s = (let r = client ev (history s) c in (r, recorded c r s))"

section \<open>Stage 1: products\<close>

text \<open>The body of the \<^verbatim>\<open>try\<close> in the loop of \<^verbatim>\<open>migrate_products\<close>.\<close>

definition product_try :: "env \<Rightarrow> goods \<Rightarrow> engine \<Rightarrow> (exn + unit) \<times> engine" where
  "product_try ev g s =
     (case build_product_payload ev g of
        Inl e \<Rightarrow> (Inl e, s)
      | Inr payload \<Rightarrow>
          if dry_run (opts ev) then
            (Inr (),
             incr products_created 1
               ((log_add (Info (DryRunProduct (gd_name g) (g_id g))) s)
                  \<lparr>product_map := AList.update (g_id g) (JInt (- 1)) (product_map s)\<rparr>))
          else
            (case call_api ev (CreateProduct payload) s of
               (Inl e, s1) \<Rightarrow> (Inl e, s1)
             | (Inr result, s1) \<Rightarrow>
                 (case extract_id result of
                    Inl e \<Rightarrow> (Inl e, s1)
                  | Inr pid \<Rightarrow>
                      if truthy pid then
                        (Inr (),
                         log_add (Info (CreatedProduct (gd_name g) pid))
                           (incr products_created 1
                              (s1\<lparr>product_map := AList.update (g_id g) pid (product_map s1)\<rparr>)))
                      else
                        (Inr (),
                         incr products_failed 1
                           (log_add (Warning (ProductNoId (gd_name g))) s1)))))"

text \<open>One turn of the loop: the \<^verbatim>\<open>try\<close> with its \<^verbatim>\<open>except Exception\<close>.\<close>

definition migrate_product :: "env \<Rightarrow> goods \<Rightarrow> engine \<Rightarrow> engine" where
  "migrate_product ev g s =
     (case product_try ev g s of
        (Inl e, s1) \<Rightarrow>
          incr products_failed 1 (log_add (Error (FailedProduct (gd_name g) (g_id g) e)) s1)
      | (Inr u, s1) \<Rightarrow> s1)"

fun migrate_products_loop :: "env \<Rightarrow> goods list \<Rightarrow> engine \<Rightarrow> engine" where
  "migrate_products_loop ev [] s = s"
| "migrate_products_loop ev (g # gs) s = migrate_products_loop ev gs (migrate_product ev g s)"

definition migrate_products :: "env \<Rightarrow> engine \<Rightarrow> (exn + unit) \<times> engine" where
  "migrate_products ev s =
     (case get_goods (reader ev) (skip_disabled (opts ev)) of
        Inl e \<Rightarrow> (Inl e, s)
      | Inr goods_list \<Rightarrow>
          if goods_list = [] then (Inr (), log_add (Info NoGoodsFound) s)
          else (Inr (),
                migrate_products_loop ev goods_list
                  (log_add (Info (FoundGoods (length goods_list))) s)))"

section \<open>Stage 2: card codes into virtual inventories\<close>

text \<open>
  \<^verbatim>\<open>[(gid, pid) for gid, pid in self.product_map.items() if self.reader.get_carmis_count(gid) > 0]\<close>:
  the count query is outside every \<^verbatim>\<open>try\<close>, so its exception leaves the stage.
\<close>

fun goods_with_carmis :: "DujiaokaReader \<Rightarrow> (int \<times> json) list \<Rightarrow> exn + (int \<times> json) list" where
  "goods_with_carmis rd [] = Inr []"
| "goods_with_carmis rd ((gid, pid) # rest) =
     (case get_carmis_count rd gid of
        Inl e \<Rightarrow> Inl e
      | Inr cnt \<Rightarrow>
          (case goods_with_carmis rd rest of
             Inl e \<Rightarrow> Inl e
           | Inr xs \<Rightarrow> Inr (if 0 < cnt then (gid, pid) # xs else xs)))"

definition carmi_text :: "carmi_row \<Rightarrow> string" where
  "carmi_text c = (case carmi c of None \<Rightarrow> [] | Some t \<Rightarrow> t)"

text \<open>\<^verbatim>\<open>[c["carmi"] for c in carmis if c.get("carmi") and not c.get("is_loop")]\<close>\<close>

definition normal_items :: "carmi_row list \<Rightarrow> string list" where
  "normal_items carmis = map carmi_text (filter (\<lambda>c. carmi_text c \<noteq> [] \<and> \<not> is_loop c) carmis)"

text \<open>\<^verbatim>\<open>[c for c in carmis if c.get("carmi") and c.get("is_loop")]\<close>\<close>

definition loop_items :: "carmi_row list \<Rightarrow> carmi_row list" where
  "loop_items carmis = filter (\<lambda>c. carmi_text c \<noteq> [] \<and> is_loop c) carmis"

text \<open>\<^verbatim>\<open>range(start, stop, step)\<close> for a positive step.\<close>

function range_step :: "nat \<Rightarrow> nat \<Rightarrow> nat \<Rightarrow> nat list" where
  "range_step i n b = (if 0 < b \<and> i < n then i # range_step (i + b) n b else [])"
  by pat_completeness auto
termination
  by (relation "measure (\<lambda>(i, n, b). n - i)") auto

text \<open>
  Step 2a, for the start indices still to do: \<^verbatim>\<open>batch = normal_items[i:i + batch_size]\<close>,
  the import in its own \<^verbatim>\<open>try\<close>.
\<close>

fun import_batches :: "env \<Rightarrow> json \<Rightarrow> string list \<Rightarrow> nat list \<Rightarrow> engine \<Rightarrow> engine" where
  "import_batches ev vinv_id items [] s = s"
| "import_batches ev vinv_id items (i # rest) s =
     (let b = nat (batch_size (opts ev));
          batch = take b (drop i items)
      in case call_api ev (ImportVirtualStock vinv_id batch) s of
           (Inl e, s1) \<Rightarrow>
             import_batches ev vinv_id items rest
               (log_add (Error (FailedBatch (int (i div b) + 1) vinv_id e)) s1)
         | (Inr r, s1) \<Rightarrow>
             import_batches ev vinv_id items rest
               (incr carmis_imported (int (length batch)) s1))"

text \<open>The body of the \<^verbatim>\<open>try\<close> of step 2b, for one reusable code.\<close>

definition loop_item_try :: "env \<Rightarrow> json \<Rightarrow> carmi_row \<Rightarrow> engine \<Rightarrow> (exn + unit) \<times> engine" where
  "loop_item_try ev vinv_id c s =
     (case call_api ev (CreateVirtualStockItem vinv_id (carmi_text c)) s of
        (Inl e, s1) \<Rightarrow> (Inl e, s1)
      | (Inr result, s1) \<Rightarrow>
          (case extract_stock_id result of
             Inl e \<Rightarrow> (Inl e, s1)
           | Inr stock_id \<Rightarrow>
               if truthy stock_id then
                 (case call_api ev (ReserveStockItem vinv_id stock_id) s1 of
                    (Inl e, s2) \<Rightarrow> (Inl e, s2)
                  | (Inr r, s2) \<Rightarrow> (Inr (), incr carmis_imported 1 s2))
               else (Inr (), incr carmis_imported 1 s1)))"

fun import_loop_items :: "env \<Rightarrow> json \<Rightarrow> carmi_row list \<Rightarrow> engine \<Rightarrow> engine" where
  "import_loop_items ev vinv_id [] s = s"
| "import_loop_items ev vinv_id (c # cs) s =
     (case loop_item_try ev vinv_id c s of
        (Inl e, s1) \<Rightarrow>
          import_loop_items ev vinv_id cs (log_add (Error (FailedLoopCarmi vinv_id e)) s1)
      | (Inr u, s1) \<Rightarrow> import_loop_items ev vinv_id cs s1)"

text \<open>Step 3: \<^verbatim>\<open>if product_id > 0:\<close> and the bind in its own \<^verbatim>\<open>try\<close>.\<close>

definition bind_step :: "env \<Rightarrow> json \<Rightarrow> json \<Rightarrow> engine \<Rightarrow> (exn + unit) \<times> engine" where
  "bind_step ev product_id vinv_id s =
     (case py_gt0 product_id of
        Inl e \<Rightarrow> (Inl e, s)
      | Inr positive \<Rightarrow>
          if positive then
            (case call_api ev (BindVirtualInventory product_id vinv_id) s of
               (Inl e, s1) \<Rightarrow> (Inr (), log_add (Error (FailedBind vinv_id product_id e)) s1)
             | (Inr r, s1) \<Rightarrow>
                 (Inr (),
                  log_add (Info (BoundInventory vinv_id product_id))
                    (incr bindings_created 1 s1)))
          else (Inr (), s))"

text \<open>
  Steps 2a, 2b and 3 of \<^verbatim>\<open>_migrate_carmis_for_goods\<close>, once the inventory exists.
  \<^verbatim>\<open>range(0, n, 0)\<close> raises ValueError; a negative step gives an empty range.
\<close>

definition import_and_bind ::
  "env \<Rightarrow> json \<Rightarrow> json \<Rightarrow> carmi_row list \<Rightarrow> engine \<Rightarrow> (exn + unit) \<times> engine" where
  "import_and_bind ev product_id vinv_id carmis s =
     (if batch_size (opts ev) = 0 then (Inl ValueError, s)
      else
        let items = normal_items carmis;
            starts = (if batch_size (opts ev) < 0 then []
                      else range_step 0 (length items) (nat (batch_size (opts ev))));
            s1 = import_batches ev vinv_id items starts s;
            s2 = import_loop_items ev vinv_id (loop_items carmis) s1;
            s3 = (if loop_items carmis = [] then s2
                  else log_add (Info (ImportedLoopCarmis (length (loop_items carmis)) vinv_id)) s2)
        in bind_step ev product_id vinv_id s3)"

definition migrate_carmis_for_goods ::
  "env \<Rightarrow> int \<Rightarrow> json \<Rightarrow> engine \<Rightarrow> (exn + unit) \<times> engine" where
  "migrate_carmis_for_goods ev goods_id product_id s =
     (case get_carmis_by_goods (reader ev) goods_id of
        Inl e \<Rightarrow> (Inl e, s)
      | Inr carmis \<Rightarrow>
          if carmis = [] then (Inr (), s)
          else if dry_run (opts ev) then
            (Inr (),
             incr carmis_imported (int (length carmis))
               (incr vinv_created 1
                  ((log_add (Info (DryRunInventory goods_id (length carmis))) s)
                     \<lparr>vinv_map := AList.update goods_id (JInt (- 1)) (vinv_map s)\<rparr>)))
          else
            (case call_api ev (CreateVirtualInventory goods_id) s of
               (Inl e, s1) \<Rightarrow> (Inl e, s1)
             | (Inr result, s1) \<Rightarrow>
                 (case extract_id result of
                    Inl e \<Rightarrow> (Inl e, s1)
                  | Inr vinv_id \<Rightarrow>
                      if \<not> truthy vinv_id then
                        (Inr (), log_add (Error (InventoryNoId goods_id)) s1)
                      else
                        import_and_bind ev product_id vinv_id carmis
                          (log_add (Info (CreatedInventory vinv_id goods_id))
                             (incr vinv_created 1
                                (s1\<lparr>vinv_map := AList.update goods_id vinv_id (vinv_map s1)\<rparr>))))))"

text \<open>One turn of the loop of \<^verbatim>\<open>migrate_carmis\<close>: the exception is logged, nothing is counted.\<close>

definition migrate_carmis_unit :: "env \<Rightarrow> int \<times> json \<Rightarrow> engine \<Rightarrow> engine" where
  "migrate_carmis_unit ev gp s =
     (case migrate_carmis_for_goods ev (fst gp) (snd gp) s of
        (Inl e, s1) \<Rightarrow> log_add (Error (FailedCarmis (fst gp) e)) s1
      | (Inr u, s1) \<Rightarrow> s1)"

fun migrate_carmis_loop :: "env \<Rightarrow> (int \<times> json) list \<Rightarrow> engine \<Rightarrow> engine" where
  "migrate_carmis_loop ev [] s = s"
| "migrate_carmis_loop ev (gp # rest) s = migrate_carmis_loop ev rest (migrate_carmis_unit ev gp s)"

definition migrate_carmis :: "env \<Rightarrow> engine \<Rightarrow> (exn + unit) \<times> engine" where
  "migrate_carmis ev s =
     (if product_map s = [] then (Inr (), log_add (Warning NoProductsMapped) s)
      else
        (case goods_with_carmis (reader ev) (product_map s) of
           Inl e \<Rightarrow> (Inl e, s)
         | Inr todo \<Rightarrow>
             if todo = [] then (Inr (), log_add (Info NoCarmisFound) s)
             else (Inr (),
                   migrate_carmis_loop ev todo (log_add (Info (FoundCarmis (length todo))) s))))"

section \<open>Stage 3: coupons into promo codes\<close>

text \<open>
  \<^verbatim>\<open>[self.product_map[gid] for gid in djk_goods_ids
      if gid in self.product_map and self.product_map[gid] > 0]\<close>
\<close>

fun al_product_ids :: "(int \<times> json) list \<Rightarrow> int list \<Rightarrow> exn + json list" where
  "al_product_ids pm [] = Inr []"
| "al_product_ids pm (gid # rest) =
     (case map_of pm gid of
        None \<Rightarrow> al_product_ids pm rest
      | Some v \<Rightarrow>
          (case py_gt0 v of
             Inl e \<Rightarrow> Inl e
           | Inr positive \<Rightarrow>
               (case al_product_ids pm rest of
                  Inl e \<Rightarrow> Inl e
                | Inr ids \<Rightarrow> Inr (if positive then v # ids else ids))))"

text \<open>The payload dict of \<^verbatim>\<open>migrate_coupons\<close>, from the product ids found.\<close>

definition promo_code_payload :: "coupon \<Rightarrow> json list \<Rightarrow> exn + promo_payload" where
  "promo_code_payload cp ids =
     (case c_discount cp of
        None \<Rightarrow> Inl TypeError
      | Some discount \<Rightarrow>
          (case c_ret cp of
             None \<Rightarrow> Inl TypeError
           | Some ret \<Rightarrow>
               Inr \<lparr>pc_code = c_coupon cp,
                    pc_name = ''djk-coupon-'' @ str_int (c_id cp),
                    pc_description_id = c_id cp,
                    pc_discount_type = ''fixed'',
                    pc_discount_value = discount,
                    pc_total_quantity = ret,
                    pc_status = (if c_is_open cp = Some 1 then ''active'' else ''inactive''),
                    pc_product_ids = (if ids \<noteq> [] then Some ids else None),
                    pc_product_scope = (if ids \<noteq> [] then ''specific'' else ''all'')\<rparr>))"

text \<open>The payload of one coupon: the product lookup, then the dict.\<close>

definition coupon_payload :: "env \<Rightarrow> (int \<times> json) list \<Rightarrow> coupon \<Rightarrow> exn + promo_payload" where
  "coupon_payload ev pm cp =
     (case get_coupon_goods (reader ev) (c_id cp) of
        Inl e \<Rightarrow> Inl e
      | Inr djk_goods_ids \<Rightarrow>
          (case al_product_ids pm djk_goods_ids of
             Inl e \<Rightarrow> Inl e
           | Inr ids \<Rightarrow> promo_code_payload cp ids))"

text \<open>The body of the \<^verbatim>\<open>try\<close> in the loop of \<^verbatim>\<open>migrate_coupons\<close>.\<close>

definition coupon_try :: "env \<Rightarrow> coupon \<Rightarrow> engine \<Rightarrow> (exn + unit) \<times> engine" where
  "coupon_try ev cp s =
     (case coupon_payload ev (product_map s) cp of
        Inl e \<Rightarrow> (Inl e, s)
      | Inr payload \<Rightarrow>
          if dry_run (opts ev) then
            (Inr (),
             incr coupons_created 1
               (log_add (Info (DryRunPromo (c_coupon cp) (pc_discount_value payload))) s))
          else
            (case call_api ev (CreatePromoCode payload) s of
               (Inl e, s1) \<Rightarrow> (Inl e, s1)
             | (Inr r, s1) \<Rightarrow>
                 (Inr (),
                  log_add (Info (CreatedPromo (c_coupon cp))) (incr coupons_created 1 s1))))"

definition migrate_coupon :: "env \<Rightarrow> coupon \<Rightarrow> engine \<Rightarrow> engine" where
  "migrate_coupon ev cp s =
     (case coupon_try ev cp s of
        (Inl e, s1) \<Rightarrow>
          incr coupons_failed 1 (log_add (Error (FailedPromo (c_coupon cp) (c_id cp) e)) s1)
      | (Inr u, s1) \<Rightarrow> s1)"

fun migrate_coupons_loop :: "env \<Rightarrow> coupon list \<Rightarrow> engine \<Rightarrow> engine" where
  "migrate_coupons_loop ev [] s = s"
| "migrate_coupons_loop ev (cp # rest) s = migrate_coupons_loop ev rest (migrate_coupon ev cp s)"

definition migrate_coupons :: "env \<Rightarrow> engine \<Rightarrow> (exn + unit) \<times> engine" where
  "migrate_coupons ev s =
     (case get_coupons (reader ev) of
        Inl e \<Rightarrow> (Inl e, s)
      | Inr coupons \<Rightarrow>
          if coupons = [] then (Inr (), log_add (Info NoCouponsFound) s)
          else (Inr (),
                migrate_coupons_loop ev coupons
                  (log_add (Info (FoundCoupons (length coupons))) s)))"

section \<open>The run and its summary\<close>

definition stat_rows :: "stat_key list" where
  "stat_rows =
     [products_created, products_skipped, products_failed, vinv_created,
      carmis_imported, bindings_created, coupons_created, coupons_failed]"

text \<open>\<^verbatim>\<open>{str(k): v for k, v in m.items()}\<close>\<close>

definition str_keys :: "(int \<times> json) list \<Rightarrow> (string \<times> json) list" where
  "str_keys m = foldl (\<lambda>acc kv. AList.update (str_int (fst kv)) (snd kv) acc) [] m"

definition print_summary :: "engine \<Rightarrow> engine" where
  "print_summary s =
     s\<lparr>report := Some (map (\<lambda>k. (k, stats s k)) stat_rows),
       written := Some \<lparr>mf_product_map = str_keys (product_map s),
                        mf_virtual_inventory_map = str_keys (vinv_map s)\<rparr>\<rparr>"

text \<open>A stage that is switched off is skipped.\<close>

definition stage :: "bool \<Rightarrow> (engine \<Rightarrow> (exn + unit) \<times> engine) \<Rightarrow> engine \<Rightarrow> (exn + unit) \<times> engine" where
  "stage enabled f s = (if enabled then f s else (Inr (), s))"

definition run :: "env \<Rightarrow> engine \<Rightarrow> (exn + unit) \<times> engine" where
  "run ev s =
     (case get_summary (reader ev) of
        Inl e \<Rightarrow> (Inl e, s)
      | Inr summary \<Rightarrow>
          (case stage (opt_migrate_products (opts ev)) (migrate_products ev) s of
             (Inl e, s1) \<Rightarrow> (Inl e, s1)
           | (Inr u1, s1) \<Rightarrow>
               (case stage (opt_migrate_carmis (opts ev)) (migrate_carmis ev) s1 of
                  (Inl e, s2) \<Rightarrow> (Inl e, s2)
                | (Inr u2, s2) \<Rightarrow>
                    (case stage (opt_migrate_coupons (opts ev)) (migrate_coupons ev) s2 of
                       (Inl e, s3) \<Rightarrow> (Inl e, s3)
                     | (Inr u3, s3) \<Rightarrow> (Inr (), print_summary s3)))))"

section \<open>The API client\<close>

record AuraLogicConfig =
  base_url :: string
  api_key :: string
  api_secret :: string
  retry_count :: int
  retry_delay :: rat

datatype kwargs =
    JsonKw json
  | DataKw "(string \<times> string) list"
  | ParamsKw "(string \<times> int) list"

text \<open>
  What \<^verbatim>\<open>session.request\<close> is given: besides the arguments of the call, the headers
  the session holds at that moment (they are merged into the request that is sent).
\<close>

record http_request =
  rq_method :: string
  rq_url :: string
  rq_session_headers :: "string \<rightharpoonup> string"
  rq_call_headers :: "(string \<times> string) list"
  rq_kwargs :: kwargs

text \<open>
  A Python float as far as the waits need it: a finite number, \<^verbatim>\<open>inf\<close> of either sign,
  or \<^verbatim>\<open>nan\<close> (\<^verbatim>\<open>float\<close> accepts the texts \<^verbatim>\<open>inf\<close>, \<^verbatim>\<open>nan\<close> and \<^verbatim>\<open>1e400\<close>).
\<close>

datatype seconds = Finite rat | Infinite | NotANumber

text \<open>
  The \<^verbatim>\<open>Retry-After\<close> header as \<^verbatim>\<open>float(...)\<close> sees it: absent, a float, or text
  that \<^verbatim>\<open>float\<close> rejects with ValueError.
\<close>

datatype retry_after = RetryAfterAbsent | RetryAfterSeconds seconds | RetryAfterText

datatype body_text = EmptyText | JsonText json | GarbageText

record http_response =
  status_code :: nat
  retry_after_header :: retry_after
  text_body :: body_text

datatype transport_result = Raised exn | Response http_response

text \<open>
  What the client did on the wire and on the clock, in order: a request with what came
  back for it, a sleep, a warning.
\<close>

datatype client_event =
    Exchange http_request transport_result
  | Slept seconds
  | WarnRateLimited seconds int
  | WarnRetry int exn

text \<open>\<^verbatim>\<open>requests.exceptions.RequestException\<close> and its subclasses.\<close>

fun is_request_exception :: "exn \<Rightarrow> bool" where
  "is_request_exception (RequestException m) = True"
| "is_request_exception (HTTPError c) = True"
| "is_request_exception JSONDecodeError = True"
| "is_request_exception _ = False"

text \<open>
  How one attempt ends inside the inner \<^verbatim>\<open>try\<close>: a 429 is looked at first, then
  \<^verbatim>\<open>raise_for_status\<close> (HTTPError for 4xx and 5xx), then \<^verbatim>\<open>resp.json() if resp.text else {}\<close>.
  A body that is not JSON makes \<^verbatim>\<open>resp.json()\<close> raise the library's JSONDecodeError,
  which is a \<^verbatim>\<open>RequestException\<close>. An exception of \<^verbatim>\<open>session.request\<close> that is not a
  \<^verbatim>\<open>RequestException\<close> is not caught by the loop.
\<close>

datatype attempt_outcome =
    RateLimited retry_after
  | Succeeded json
  | Failed exn
  | Crashed exn

definition classify :: "transport_result \<Rightarrow> attempt_outcome" where
  "classify res =
     (case res of
        Raised e \<Rightarrow> if is_request_exception e then Failed e else Crashed e
      | Response r \<Rightarrow>
          if status_code r = 429 then RateLimited (retry_after_header r)
          else if 400 \<le> status_code r \<and> status_code r < 600 then Failed (HTTPError (status_code r))
          else (case text_body r of
                  EmptyText \<Rightarrow> Succeeded (JDict [])
                | JsonText j \<Rightarrow> Succeeded j
                | GarbageText \<Rightarrow> Failed JSONDecodeError))"

text \<open>\<^verbatim>\<open>float(resp.headers.get("Retry-After", self.config.retry_delay * attempt))\<close>\<close>

definition rate_limit_wait :: "AuraLogicConfig \<Rightarrow> int \<Rightarrow> retry_after \<Rightarrow> exn + seconds" where
  "rate_limit_wait cfg attempt ra =
     (case ra of
        RetryAfterAbsent \<Rightarrow> Inr (Finite (retry_delay cfg * of_int attempt))
      | RetryAfterSeconds d \<Rightarrow> Inr d
      | RetryAfterText \<Rightarrow> Inl ValueError)"

text \<open>
  \<^verbatim>\<open>time.sleep\<close> keeps its argument as a signed 64-bit number of nanoseconds. It first
  converts the float, raising ValueError for \<^verbatim>\<open>nan\<close> and OverflowError for what does not
  fit, and then raises ValueError for a negative duration. \<open>None\<close> when it sleeps.
\<close>

definition sleep_limit :: rat where
  "sleep_limit = 9223372036854775808 / 1000000000"

definition py_sleep :: "seconds \<Rightarrow> exn option" where
  "py_sleep w =
     (case w of
        Finite d \<Rightarrow>
          if sleep_limit \<le> \<bar>d\<bar> then Some OverflowError
          else if d < 0 then Some ValueError
          else None
      | Infinite \<Rightarrow> Some OverflowError
      | NotANumber \<Rightarrow> Some ValueError)"

text \<open>The three ways out of the \<^verbatim>\<open>for attempt in range(...)\<close> loop.\<close>

datatype loop_exit = Returned json | Propagated exn | Exhausted "exn option"

text \<open>What is done first, put in front of what follows.\<close>

definition then_events ::
  "client_event list \<Rightarrow> loop_exit \<times> 't \<times> client_event list \<Rightarrow> loop_exit \<times> 't \<times> client_event list" where
  "then_events evs r = (case r of (ex, t, later) \<Rightarrow> (ex, t, evs @ later))"

text \<open>
  The loop over the attempt numbers still to come, with \<^verbatim>\<open>last_err\<close>. A 429 sleeps and
  says \<^verbatim>\<open>continue\<close>, which takes the next number of the range. An exception of
  \<^verbatim>\<open>float\<close> or of \<^verbatim>\<open>time.sleep\<close> is no \<^verbatim>\<open>RequestException\<close> and leaves the loop. The
  result is how the loop is left, the transport afterwards, and what happened on the
  way.
\<close>

fun request_loop ::
  "AuraLogicConfig \<Rightarrow> ('t \<Rightarrow> http_request \<Rightarrow> transport_result \<times> 't) \<Rightarrow> http_request \<Rightarrow>
   int list \<Rightarrow> exn option \<Rightarrow> 't \<Rightarrow> loop_exit \<times> 't \<times> client_event list" where
  "request_loop cfg tr rq [] last_err t = (Exhausted last_err, t, [])"
| "request_loop cfg tr rq (attempt # rest) last_err t =
     (case tr t rq of
        (res, t1) \<Rightarrow>
          then_events [Exchange rq res]
            (case classify res of
               RateLimited ra \<Rightarrow>
                 (case rate_limit_wait cfg attempt ra of
                    Inl e \<Rightarrow> (Propagated e, t1, [])
                  | Inr wait \<Rightarrow>
                      then_events [WarnRateLimited wait attempt]
                        (case py_sleep wait of
                           Some x \<Rightarrow> (Propagated x, t1, [])
                         | None \<Rightarrow>
                             then_events [Slept wait]
                               (request_loop cfg tr rq rest last_err t1)))
             | Succeeded j \<Rightarrow> (Returned j, t1, [])
             | Failed e \<Rightarrow>
                 if attempt < retry_count cfg then
                   (case py_sleep (Finite (retry_delay cfg * of_int attempt)) of
                      Some x \<Rightarrow> (Propagated x, t1, [])
                    | None \<Rightarrow>
                        then_events
                          [Slept (Finite (retry_delay cfg * of_int attempt)), WarnRetry attempt e]
                          (request_loop cfg tr rq rest (Some e) t1))
                 else request_loop cfg tr rq rest (Some e) t1
             | Crashed e \<Rightarrow> (Propagated e, t1, [])))"

text \<open>
  The prologue of \<^verbatim>\<open>_request\<close>: an override of \<^verbatim>\<open>None\<close> pops the header from the
  session and keeps what was there; any other override goes into the call's own headers.
\<close>

fun apply_overrides ::
  "(string \<times> string option) list \<Rightarrow> (string \<times> string option) list \<Rightarrow> (string \<rightharpoonup> string) \<Rightarrow>
   (string \<times> string) list \<Rightarrow>
   (string \<times> string option) list \<times> (string \<rightharpoonup> string) \<times> (string \<times> string) list" where
  "apply_overrides [] saved hdrs call_hdrs = (saved, hdrs, call_hdrs)"
| "apply_overrides ((k, None) # rest) saved hdrs call_hdrs =
     apply_overrides rest (AList.update k (hdrs k) saved) (hdrs(k := None)) call_hdrs"
| "apply_overrides ((k, Some v) # rest) saved hdrs call_hdrs =
     apply_overrides rest saved hdrs (AList.update k v call_hdrs)"

text \<open>The \<^verbatim>\<open>finally\<close> of \<^verbatim>\<open>_request\<close>.\<close>

fun restore_headers :: "(string \<times> string option) list \<Rightarrow> (string \<rightharpoonup> string) \<Rightarrow> (string \<rightharpoonup> string)" where
  "restore_headers [] hdrs = hdrs"
| "restore_headers ((k, None) # rest) hdrs = restore_headers rest hdrs"
| "restore_headers ((k, Some v) # rest) hdrs = restore_headers rest (hdrs(k \<mapsto> v))"

text \<open>What \<^verbatim>\<open>session.request(method, url, **kwargs)\<close> is called with.\<close>

definition the_request ::
  "AuraLogicConfig \<Rightarrow> string \<Rightarrow> string \<Rightarrow> (string \<rightharpoonup> string) \<Rightarrow> (string \<times> string) list \<Rightarrow>
   kwargs \<Rightarrow> http_request" where
  "the_request cfg method path hdrs call_hdrs kw =
     \<lparr>rq_method = method, rq_url = base_url cfg @ ''/api/admin'' @ path,
      rq_session_headers = hdrs, rq_call_headers = call_hdrs, rq_kwargs = kw\<rparr>"

text \<open>
  How \<^verbatim>\<open>_request\<close> ends for each way out of the loop: the \<^verbatim>\<open>raise RuntimeError\<close> stands
  after the loop.
\<close>

definition exit_result :: "AuraLogicConfig \<Rightarrow> loop_exit \<Rightarrow> exn + json" where
  "exit_result cfg ex =
     (case ex of
        Returned j \<Rightarrow> Inr j
      | Propagated e \<Rightarrow> Inl e
      | Exhausted last_err \<Rightarrow> Inl (RuntimeError (retry_count cfg) last_err))"

text \<open>
  \<^verbatim>\<open>_request\<close>: the outcome, the session headers afterwards, the transport afterwards
  and what happened on the way. The \<^verbatim>\<open>finally\<close> runs on every way out.
\<close>

definition request ::
  "AuraLogicConfig \<Rightarrow> ('t \<Rightarrow> http_request \<Rightarrow> transport_result \<times> 't) \<Rightarrow> string \<Rightarrow> string \<Rightarrow>
   (string \<times> string option) list \<Rightarrow> kwargs \<Rightarrow> (string \<rightharpoonup> string) \<Rightarrow> 't \<Rightarrow>
   (exn + json) \<times> (string \<rightharpoonup> string) \<times> 't \<times> client_event list" where
  "request cfg tr method path headers_override kw hdrs t =
     (case apply_overrides headers_override [] hdrs [] of
        (saved, hdrs1, call_hdrs) \<Rightarrow>
          (case request_loop cfg tr (the_request cfg method path hdrs1 call_hdrs kw)
                  [1 .. retry_count cfg] None t of
             (ex, t1, evs) \<Rightarrow>
               (exit_result cfg ex, restore_headers saved hdrs1, t1, evs)))"

text \<open>The headers the constructor puts on the session, over the library's defaults.\<close>

definition AuraLogicClient_init :: "AuraLogicConfig \<Rightarrow> (string \<rightharpoonup> string) \<Rightarrow> (string \<rightharpoonup> string)" where
  "AuraLogicClient_init cfg defaults =
     defaults(''X-API-Key'' \<mapsto> api_key cfg, ''X-API-Secret'' \<mapsto> api_secret cfg,
              ''Content-Type'' \<mapsto> ''application/json'')"

text \<open>\<^verbatim>\<open>"\n".join(items)\<close>\<close>

fun join_lines :: "string list \<Rightarrow> string" where
  "join_lines [] = []"
| "join_lines [x] = x"
| "join_lines (x # y # rest) = x @ [CHR 0x0A] @ join_lines (y # rest)"

text \<open>The operations of the client, with the arguments of each method.\<close>

datatype client_op =
    create_product json
  | list_products int int
  | create_virtual_inventory json
  | import_virtual_stock int "string list"
  | create_virtual_stock_item int string string
  | reserve_stock_item int int string
  | bind_virtual_inventory int int
  | create_promo_code json

text \<open>\<^verbatim>\<open>data = {...}; if remark: data["remark"] = remark\<close>\<close>

definition with_remark :: "(string \<times> json) list \<Rightarrow> string \<Rightarrow> json" where
  "with_remark d remark = JDict (if remark \<noteq> [] then AList.update ''remark'' (JStr remark) d else d)"

fun perform ::
  "AuraLogicConfig \<Rightarrow> ('t \<Rightarrow> http_request \<Rightarrow> transport_result \<times> 't) \<Rightarrow> client_op \<Rightarrow>
   (string \<rightharpoonup> string) \<Rightarrow> 't \<Rightarrow> (exn + json) \<times> (string \<rightharpoonup> string) \<times> 't \<times> client_event list" where
  "perform cfg tr (create_product d) =
     request cfg tr ''POST'' ''/products'' [] (JsonKw d)"
| "perform cfg tr (list_products page page_size) =
     request cfg tr ''GET'' ''/products'' []
       (ParamsKw [(''page'', page), (''page_size'', page_size)])"
| "perform cfg tr (create_virtual_inventory d) =
     request cfg tr ''POST'' ''/virtual-inventories'' [] (JsonKw d)"
| "perform cfg tr (import_virtual_stock inventory_id items) =
     request cfg tr ''POST'' (''/virtual-inventories/'' @ str_int inventory_id @ ''/import'')
       [(''Content-Type'', None)]
       (DataKw [(''import_type'', ''text''), (''content'', join_lines items)])"
| "perform cfg tr (create_virtual_stock_item inventory_id content remark) =
     request cfg tr ''POST'' (''/virtual-inventories/'' @ str_int inventory_id @ ''/stocks'') []
       (JsonKw (with_remark [(''content'', JStr content)] remark))"
| "perform cfg tr (reserve_stock_item inventory_id stock_id remark) =
     request cfg tr ''POST''
       (''/virtual-inventories/'' @ str_int inventory_id @ ''/stocks/'' @ str_int stock_id @ ''/reserve'') []
       (JsonKw (with_remark [] remark))"
| "perform cfg tr (bind_virtual_inventory product_id virtual_inventory_id) =
     request cfg tr ''POST'' (''/products/'' @ str_int product_id @ ''/virtual-inventory-bindings'') []
       (JsonKw (JDict [(''virtual_inventory_id'', JInt virtual_inventory_id)]))"
| "perform cfg tr (create_promo_code d) =
     request cfg tr ''POST'' ''/promo-codes'' [] (JsonKw d)"

text \<open>The session headers each request of a call was sent under.\<close>

fun sent_under :: "client_event list \<Rightarrow> (string \<rightharpoonup> string) list" where
  "sent_under [] = []"
| "sent_under (Exchange rq res # evs) = rq_session_headers rq # sent_under evs"
| "sent_under (ev # evs) = sent_under evs"

text \<open>What came back for the requests of a call, in order.\<close>

fun answers :: "client_event list \<Rightarrow> transport_result list" where
  "answers [] = []"
| "answers (Exchange rq res # evs) = res # answers evs"
| "answers (ev # evs) = answers evs"



text \<open>
  Transports, with the number of requests seen so far as their state: one answers the
  first request with 429 and every later one with an empty 200; one always answers 429
  and asks for two seconds; one always answers 429 and asks for \<open>10^30\<close> seconds; the
  last always refuses the connection.
\<close>

definition limited_once :: "nat \<Rightarrow> http_request \<Rightarrow> transport_result \<times> nat" where
  "limited_once n rq =
     (Response \<lparr>status_code = (if n = 0 then 429 else 200),
                retry_after_header = RetryAfterAbsent, text_body = EmptyText\<rparr>,
      Suc n)"

definition always_limited :: "nat \<Rightarrow> http_request \<Rightarrow> transport_result \<times> nat" where
  "always_limited n rq =
     (Response \<lparr>status_code = 429, retry_after_header = RetryAfterSeconds (Finite 2),
                text_body = EmptyText\<rparr>,
      Suc n)"


definition refusing :: "nat \<Rightarrow> http_request \<Rightarrow> transport_result \<times> nat" where
  "refusing n rq = (Raised (RequestException ''connection refused''), Suc n)"

definition demo_config :: "int \<Rightarrow> AuraLogicConfig" where
  "demo_config n =
     \<lparr>base_url = ''http://localhost:8080'', api_key = ''ak'', api_secret = ''sk'',
      retry_count = n, retry_delay = 1\<rparr>"

section \<open>The run, stage by stage\<close>

text \<open>The engine after each stage of \<^verbatim>\<open>run\<close>, whether the stage is switched on or not.\<close>

definition after_products :: "env \<Rightarrow> engine \<Rightarrow> engine" where
  "after_products ev s = snd (stage (opt_migrate_products (opts ev)) (migrate_products ev) s)"

definition after_carmis :: "env \<Rightarrow> engine \<Rightarrow> engine" where
  "after_carmis ev s =
     snd (stage (opt_migrate_carmis (opts ev)) (migrate_carmis ev) (after_products ev s))"

definition after_coupons :: "env \<Rightarrow> engine \<Rightarrow> engine" where
  "after_coupons ev s =
     snd (stage (opt_migrate_coupons (opts ev)) (migrate_coupons ev) (after_carmis ev s))"

section \<open>A small source store and a test double of the API\<close>

text \<open>
  One product (id 7) with four unsold codes, one of them reusable, and one coupon that
  names product 99 (never migrated) and product 7. The test double answers every call
  with a fresh positive id, at the top level and under \<^verbatim>\<open>stock\<close>.
\<close>

definition demo_goods :: "goods list" where
  "demo_goods = [\<lparr>g_id = 7, gd_name = ''Gift Card'', g_columns = []\<rparr>]"

definition demo_carmis :: "carmi_row list" where
  "demo_carmis =
     [\<lparr>carmi = Some ''AAA'', is_loop = False\<rparr>, \<lparr>carmi = Some ''BBB'', is_loop = False\<rparr>,
      \<lparr>carmi = Some ''LLL'', is_loop = True\<rparr>, \<lparr>carmi = Some ''CCC'', is_loop = False\<rparr>]"

definition demo_coupons :: "coupon list" where
  "demo_coupons =
     [\<lparr>c_id = 3, c_coupon = ''SAVE10'', c_discount = Some 10, c_ret = Some 5, c_is_open = Some 1\<rparr>]"

definition demo_reader :: DujiaokaReader where
  "demo_reader =
     \<lparr>get_goods = (\<lambda>skip. Inr demo_goods),
      get_carmis_by_goods = (\<lambda>gid. Inr (if gid = 7 then demo_carmis else [])),
      get_carmis_count = (\<lambda>gid. Inr (if gid = 7 then 4 else 0)),
      get_coupons = Inr demo_coupons,
      get_coupon_goods = (\<lambda>cid. Inr (if cid = 3 then [99, 7] else [])),
      get_summary = Inr \<lparr>sum_categories = 1, sum_goods = 1, sum_unsold_carmis = 4, sum_coupons = 1\<rparr>\<rparr>"

definition demo_client :: "api_history \<Rightarrow> api_call \<Rightarrow> exn + json" where
  "demo_client h c =
     Inr (JDict [(''id'', JInt (int (length h) + 1)),
                 (''stock'', JDict [(''id'', JInt (int (length h) + 100))])])"

definition demo_env :: "bool \<Rightarrow> int \<Rightarrow> env" where
  "demo_env simulate b =
     \<lparr>reader = demo_reader, client = demo_client,
      opts = \<lparr>opt_migrate_products = True, opt_migrate_carmis = True, opt_migrate_coupons = True,
              dry_run = simulate, batch_size = b, skip_disabled = False,
              default_product_status = ''draft''\<rparr>,
      build_product_payload = (\<lambda>g. Inr (JDict [(''sku'', JStr (''djk-'' @ str_int (g_id g)))]))\<rparr>"




section \<open>What the stock migration is expected to send\<close>

text \<open>The slices \<^verbatim>\<open>items[i:i + b]\<close> for \<^verbatim>\<open>i\<close> in \<^verbatim>\<open>range(0, len(items), b)\<close>.\<close>

definition batches_of :: "nat \<Rightarrow> 'a list \<Rightarrow> 'a list list" where
  "batches_of b items = map (\<lambda>i. take b (drop i items)) (range_step 0 (length items) b)"

text \<open>
  The stock id that the answer to \<^verbatim>\<open>create_virtual_stock_item\<close> carries: the call
  returned a JSON object whose \<^verbatim>\<open>stock\<close> member is an object with a truthy \<^verbatim>\<open>id\<close>.
  This is written from the shape of the answer, not from the code that reads it.
\<close>

fun returned_stock_id :: "exn + json \<Rightarrow> json option" where
  "returned_stock_id (Inr (JDict d)) =
     (case map_of d ''stock'' of
        Some (JDict sd) \<Rightarrow>
          (case map_of sd ''id'' of
             Some sid \<Rightarrow> if truthy sid then Some sid else None
           | None \<Rightarrow> None)
      | _ \<Rightarrow> None)"
| "returned_stock_id _ = None"

text \<open>
  A stretch of calls is the individual treatment of the given reusable codes: for each
  code in turn one \<^verbatim>\<open>create_virtual_stock_item\<close> with its text, followed at once by the
  \<^verbatim>\<open>reserve_stock_item\<close> of the stock id which that creation returned, exactly when it
  returned one, and nothing else.
\<close>

fun item_calls :: "json \<Rightarrow> carmi_row list \<Rightarrow> api_history \<Rightarrow> bool" where
  "item_calls v [] h = (h = [])"
| "item_calls v (c # cs) [] = False"
| "item_calls v (c # cs) ((call1, r1) # h) =
     (call1 = CreateVirtualStockItem v (carmi_text c) \<and>
      (case returned_stock_id r1 of
         None \<Rightarrow> item_calls v cs h
       | Some sid \<Rightarrow>
           (case h of
              [] \<Rightarrow> False
            | (call2, r2) # h2 \<Rightarrow> call2 = ReserveStockItem v sid \<and> item_calls v cs h2)))"

text \<open>Creation and reservation, pair by pair, for codes and the stock ids they were given.\<close>

definition create_reserve_pairs :: "json \<Rightarrow> carmi_row list \<Rightarrow> json list \<Rightarrow> api_call list" where
  "create_reserve_pairs v cs sids =
     concat (map (\<lambda>(c, sid). [CreateVirtualStockItem v (carmi_text c), ReserveStockItem v sid])
                 (zip cs sids))"

text \<open>
  A client whose answers carry an identifier only for products and inventories, and
  are the empty object otherwise (what \<^verbatim>\<open>_request\<close> returns for an empty body); and a
  store whose product 7 has one reusable code and one single-use row without content.
\<close>

definition terse_client :: "api_history \<Rightarrow> api_call \<Rightarrow> exn + json" where
  "terse_client h c =
     (case c of
        CreateProduct payload \<Rightarrow> Inr (JDict [(''id'', JInt (int (length h) + 1))])
      | CreateVirtualInventory gid \<Rightarrow>
          Inr (JDict [(''data'', JDict [(''id'', JInt (int (length h) + 1))])])
      | _ \<Rightarrow> Inr (JDict []))"

definition sparse_carmis :: "carmi_row list" where
  "sparse_carmis = [\<lparr>carmi = Some ''LLL'', is_loop = True\<rparr>, \<lparr>carmi = None, is_loop = False\<rparr>]"

definition sparse_env :: env where
  "sparse_env =
     (demo_env False 2)
       \<lparr>reader := demo_reader\<lparr>get_carmis_by_goods := (\<lambda>gid. Inr sparse_carmis)\<rparr>,
        client := terse_client\<rparr>"

text \<open>
  The identifier that the create-product call for the row \<open>g\<close> yields when the engine
  is in state \<open>s\<close>: the payload is built, the call returns, and the answer carries an
  identifier at the top level or under \<^verbatim>\<open>data\<close> that passes \<^verbatim>\<open>if pid:\<close>. \<open>None\<close> when
  any of these fails.
\<close>

definition created_id :: "env \<Rightarrow> goods \<Rightarrow> engine \<Rightarrow> json option" where
  "created_id ev g s =
     (case build_product_payload ev g of
        Inl e \<Rightarrow> None
      | Inr payload \<Rightarrow>
          (case client ev (history s) (CreateProduct payload) of
             Inl e \<Rightarrow> None
           | Inr result \<Rightarrow>
               (case extract_id result of
                  Inl e \<Rightarrow> None
                | Inr pid \<Rightarrow> if truthy pid then Some pid else None)))"

text \<open>
  A store with two products and a client whose first call answers with an identifier
  under \<^verbatim>\<open>data\<close> and whose later calls all raise the terminal error.
\<close>

definition two_goods :: "goods list" where
  "two_goods = [\<lparr>g_id = 7, gd_name = ''Gift Card'', g_columns = []\<rparr>,
                \<lparr>g_id = 8, gd_name = ''Top-up'', g_columns = []\<rparr>]"

definition flaky_client :: "api_history \<Rightarrow> api_call \<Rightarrow> exn + json" where
  "flaky_client h c =
     (if h = [] then Inr (JDict [(''data'', JDict [(''id'', JInt 41)])])
      else Inl (RuntimeError 3 None))"

definition flaky_env :: env where
  "flaky_env =
     \<lparr>reader = demo_reader\<lparr>get_goods := (\<lambda>skip. Inr two_goods)\<rparr>,
      client = flaky_client,
      opts = \<lparr>opt_migrate_products = True, opt_migrate_carmis = True, opt_migrate_coupons = True,
              dry_run = False, batch_size = 50, skip_disabled = False,
              default_product_status = ''draft''\<rparr>,
      build_product_payload = (\<lambda>g. Inr (JDict [(''name'', JStr (gd_name g))]))\<rparr>"

text \<open>
  An association list is a dict when no key occurs twice. In simulate mode every value
  is the sentinel.
\<close>

definition dict_ok :: "bool \<Rightarrow> (int \<times> json) list \<Rightarrow> bool" where
  "dict_ok simulate m \<longleftrightarrow>
     distinct (map fst m) \<and> (simulate \<longrightarrow> (\<forall>kv \<in> set m. snd kv = JInt (- 1)))"





section \<open>Simulate mode against commit mode\<close>

text \<open>A client that always succeeds: every call returns.\<close>

definition always_succeeds :: "(api_history \<Rightarrow> api_call \<Rightarrow> exn + json) \<Rightarrow> bool" where
  "always_succeeds cl \<longleftrightarrow> (\<forall>h c. case cl h c of Inl e \<Rightarrow> False | Inr r \<Rightarrow> True)"

text \<open>
  The answers to the two creations whose identifier the engine keeps: the answer to
  \<^verbatim>\<open>create_product\<close> carries an identifier that passes \<^verbatim>\<open>if pid:\<close> and is a number
  (the engine compares it with 0 later), and the answer to
  \<^verbatim>\<open>create_virtual_inventory\<close> carries an identifier that passes \<^verbatim>\<open>if not vinv_id:\<close>.
  Nothing is asked of the answers to the other operations.
\<close>

definition answers_identified :: "(api_history \<Rightarrow> api_call \<Rightarrow> exn + json) \<Rightarrow> bool" where
  "answers_identified cl \<longleftrightarrow>
     (\<forall>h payload. case cl h (CreateProduct payload) of
          Inl e \<Rightarrow> True
        | Inr r \<Rightarrow>
            (case extract_id r of
               Inl e \<Rightarrow> False
             | Inr v \<Rightarrow> truthy v \<and> (case py_gt0 v of Inl e \<Rightarrow> False | Inr b \<Rightarrow> True))) \<and>
     (\<forall>h gid. case cl h (CreateVirtualInventory gid) of
          Inl e \<Rightarrow> True
        | Inr r \<Rightarrow> (case extract_id r of Inl e \<Rightarrow> False | Inr v \<Rightarrow> truthy v))"

text \<open>
  The answers to \<^verbatim>\<open>create_virtual_stock_item\<close> can be read: they are JSON objects whose
  \<^verbatim>\<open>stock\<close> member, where there is one, is an object, so that
  \<^verbatim>\<open>result.get("stock", {}).get("id")\<close> does not raise.
\<close>

definition stock_answers_readable :: "(api_history \<Rightarrow> api_call \<Rightarrow> exn + json) \<Rightarrow> bool" where
  "stock_answers_readable cl \<longleftrightarrow>
     (\<forall>h v t. case cl h (CreateVirtualStockItem v t) of
          Inl e \<Rightarrow> True
        | Inr r \<Rightarrow> (case extract_stock_id r of Inl e \<Rightarrow> False | Inr w \<Rightarrow> True))"

text \<open>
  A test double that answers as a terse API would: an identifier at the top level for
  a product, under \<^verbatim>\<open>data\<close> for an inventory, under \<^verbatim>\<open>stock\<close> for a stock item, and the
  empty object for everything else.
\<close>

definition plain_client :: "api_history \<Rightarrow> api_call \<Rightarrow> exn + json" where
  "plain_client h c =
     (case c of
        CreateProduct payload \<Rightarrow> Inr (JDict [(''id'', JInt (int (length h) + 1))])
      | CreateVirtualInventory gid \<Rightarrow>
          Inr (JDict [(''data'', JDict [(''id'', JInt (int (length h) + 1))])])
      | CreateVirtualStockItem v t \<Rightarrow>
          Inr (JDict [(''stock'', JDict [(''id'', JInt (int (length h) + 100))])])
      | _ \<Rightarrow> Inr (JDict []))"

definition plain_env :: env where
  "plain_env = (demo_env False 2)\<lparr>client := plain_client\<rparr>"

text \<open>The same run in simulate mode.\<close>

definition simulated :: "env \<Rightarrow> env" where
  "simulated ev = ev\<lparr>opts := (opts ev)\<lparr>dry_run := True\<rparr>\<rparr>"

text \<open>Every unsold code that the reader returns has a text.\<close>

definition all_codes_have_text :: "DujiaokaReader \<Rightarrow> bool" where
  "all_codes_have_text rd \<longleftrightarrow>
     (\<forall>gid carmis. get_carmis_by_goods rd gid = Inr carmis \<longrightarrow>
        (\<forall>c \<in> set carmis. carmi_text c \<noteq> []))"

text \<open>
  An entry of the product map of the simulated run against the entry of the committed
  run at the same place: the same source identifier, the sentinel on one side and a
  number on the other.
\<close>

definition sentinel_for :: "int \<times> json \<Rightarrow> int \<times> json \<Rightarrow> bool" where
  "sentinel_for kd kc \<longleftrightarrow>
     fst kd = fst kc \<and> snd kd = JInt (- 1) \<and>
     (case py_gt0 (snd kc) of Inl e \<Rightarrow> False | Inr b \<Rightarrow> True)"

text \<open>
  How the engine of the simulated run stands to the engine of the committed run:
  the maps have the same keys in the same order, every counter but the two of stock
  items and bindings agrees (the one of stock items too, when \<open>full\<close>), and the
  simulated run has bound nothing and called nothing.
\<close>

definition parity :: "bool \<Rightarrow> engine \<Rightarrow> engine \<Rightarrow> bool" where
  "parity full sd sc \<longleftrightarrow>
     list_all2 sentinel_for (product_map sd) (product_map sc) \<and>
     map fst (vinv_map sd) = map fst (vinv_map sc) \<and>
     (\<forall>k. k \<noteq> carmis_imported \<and> k \<noteq> bindings_created \<longrightarrow> stats sd k = stats sc k) \<and>
     (full \<longrightarrow> stats sd carmis_imported = stats sc carmis_imported) \<and>
     stats sd bindings_created = 0 \<and>
     history sd = []"

section \<open>What the coupon stage is expected to send\<close>

text \<open>
  What the coupon stage is expected to send when no product is mapped: one
  \<^verbatim>\<open>create_promo_code\<close> for each coupon whose payload can be built, in the order of the
  source. \<open>succeeded\<close> counts the calls of a history that returned.
\<close>

definition promo_calls :: "env \<Rightarrow> coupon list \<Rightarrow> api_call list" where
  "promo_calls ev cs =
     concat (map (\<lambda>cp. case coupon_payload ev [] cp of
                          Inl e \<Rightarrow> []
                        | Inr p \<Rightarrow> [CreatePromoCode p]) cs)"

definition succeeded :: "api_history \<Rightarrow> nat" where
  "succeeded h = length (filter (\<lambda>cr. case snd cr of Inl e \<Rightarrow> False | Inr r \<Rightarrow> True) h)"

section \<open>The log and the calls only grow\<close>

text \<open>
  The engine only ever appends to its log and to the calls made: \<open>extends s s'\<close> says
  that \<open>s'\<close> has the log and the calls of \<open>s\<close>, and possibly more after them. A stock
  unit has been attempted when its first observable step is there: the error of the
  stage's \<^verbatim>\<open>except\<close> if reading the codes raised, nothing if the product has no unsold
  code, otherwise the inventory creation (the dry-run message in simulate mode).
\<close>

definition extends :: "engine \<Rightarrow> engine \<Rightarrow> bool" where
  "extends s s' \<longleftrightarrow>
     (\<exists>l. logged s' = logged s @ l) \<and> (\<exists>h. history s' = history s @ h)"



lemmas engine_defs = run_def stage_def migrate_products_def migrate_product_def product_try_def
  migrate_carmis_def migrate_carmis_unit_def migrate_carmis_for_goods_def import_and_bind_def
  bind_step_def loop_item_try_def range_step.simps str_nat.simps migrate_coupons_def migrate_coupon_def coupon_try_def
  coupon_payload_def promo_code_payload_def print_summary_def call_api_def recorded_def
  incr_def log_add_def extract_id_def extract_stock_id_def normal_items_def loop_items_def
  carmi_text_def MigrationEngine_init_def Let_def

declare range_step.simps [simp del] str_nat.simps [simp del]

lemmas demo_defs = demo_env_def demo_reader_def demo_client_def demo_goods_def demo_carmis_def
  demo_coupons_def

section \<open>Frame facts of the engine's primitives\<close>

lemma log_add_fields [simp]:
  "stats (log_add l s) = stats s"
  "product_map (log_add l s) = product_map s"
  "vinv_map (log_add l s) = vinv_map s"
  "history (log_add l s) = history s"
  "logged (log_add l s) = logged s @ [l]"
  "report (log_add l s) = report s"
  "written (log_add l s) = written s"
  by (simp_all add: log_add_def)

lemma incr_fields [simp]:
  "stats (incr k n s) k' = (if k' = k then stats s k + n else stats s k')"
  "product_map (incr k n s) = product_map s"
  "vinv_map (incr k n s) = vinv_map s"
  "history (incr k n s) = history s"
  "logged (incr k n s) = logged s"
  "report (incr k n s) = report s"
  "written (incr k n s) = written s"
  by (simp_all add: incr_def)

lemma recorded_fields [simp]:
  "stats (recorded c r s) = stats s"
  "product_map (recorded c r s) = product_map s"
  "vinv_map (recorded c r s) = vinv_map s"
  "logged (recorded c r s) = logged s"
  "history (recorded c r s) = history s @ [(c, r)]"
  "report (recorded c r s) = report s"
  "written (recorded c r s) = written s"
  by (simp_all add: recorded_def)

lemma call_api_eq:
  "call_api ev c s = (client ev (history s) c, recorded c (client ev (history s) c) s)"
  by (simp add: call_api_def Let_def)

text \<open>The wrappers around a \<^verbatim>\<open>try\<close>, by the outcome of its body.\<close>

lemma migrate_product_eq:
  "migrate_product ev g s =
     (case fst (product_try ev g s) of
        Inl e \<Rightarrow> incr products_failed 1
                   (log_add (Error (FailedProduct (gd_name g) (g_id g) e)) (snd (product_try ev g s)))
      | Inr u \<Rightarrow> snd (product_try ev g s))"
  by (simp add: migrate_product_def split: prod.splits sum.splits)

lemma import_loop_items_Cons:
  "import_loop_items ev v (c # cs) s =
     import_loop_items ev v cs
       (case fst (loop_item_try ev v c s) of
          Inl e \<Rightarrow> log_add (Error (FailedLoopCarmi v e)) (snd (loop_item_try ev v c s))
        | Inr u \<Rightarrow> snd (loop_item_try ev v c s))"
  by (simp split: prod.splits sum.splits)

lemma migrate_carmis_unit_eq:
  "migrate_carmis_unit ev gp s =
     (case fst (migrate_carmis_for_goods ev (fst gp) (snd gp) s) of
        Inl e \<Rightarrow> log_add (Error (FailedCarmis (fst gp) e))
                   (snd (migrate_carmis_for_goods ev (fst gp) (snd gp) s))
      | Inr u \<Rightarrow> snd (migrate_carmis_for_goods ev (fst gp) (snd gp) s))"
  by (simp add: migrate_carmis_unit_def split: prod.splits sum.splits)

lemma migrate_coupon_eq:
  "migrate_coupon ev cp s =
     (case fst (coupon_try ev cp s) of
        Inl e \<Rightarrow> incr coupons_failed 1
                   (log_add (Error (FailedPromo (c_coupon cp) (c_id cp) e)) (snd (coupon_try ev cp s)))
      | Inr u \<Rightarrow> snd (coupon_try ev cp s))"
  by (simp add: migrate_coupon_def split: prod.splits sum.splits)

section \<open>Which counters a stage can change\<close>

lemma stats_product_try:
  "k \<noteq> products_created \<Longrightarrow> k \<noteq> products_failed \<Longrightarrow>
   stats (snd (product_try ev g s)) k = stats s k"
  by (simp add: product_try_def call_api_eq split: sum.splits)

lemma stats_migrate_product:
  "k \<noteq> products_created \<Longrightarrow> k \<noteq> products_failed \<Longrightarrow>
   stats (migrate_product ev g s) k = stats s k"
  by (simp add: migrate_product_eq stats_product_try split: sum.splits)

lemma stats_products_loop:
  "k \<noteq> products_created \<Longrightarrow> k \<noteq> products_failed \<Longrightarrow>
   stats (migrate_products_loop ev gs s) k = stats s k"
  by (induction gs arbitrary: s) (simp_all add: stats_migrate_product)

lemma stats_migrate_products:
  "k \<noteq> products_created \<Longrightarrow> k \<noteq> products_failed \<Longrightarrow>
   stats (snd (migrate_products ev s)) k = stats s k"
  by (simp add: migrate_products_def stats_products_loop split: sum.splits)

lemma stats_import_batches:
  "k \<noteq> carmis_imported \<Longrightarrow> stats (import_batches ev v items starts s) k = stats s k"
  by (induction starts arbitrary: s) (simp_all add: call_api_eq Let_def split: sum.splits)

lemma stats_loop_item_try:
  "k \<noteq> carmis_imported \<Longrightarrow> stats (snd (loop_item_try ev v c s)) k = stats s k"
  by (simp add: loop_item_try_def call_api_eq split: sum.splits)

lemma stats_import_loop_items:
  "k \<noteq> carmis_imported \<Longrightarrow> stats (import_loop_items ev v cs s) k = stats s k"
  by (induction cs arbitrary: s)
     (simp_all only: import_loop_items.simps(1) import_loop_items_Cons,
      simp_all add: stats_loop_item_try split: sum.splits)

lemma stats_bind_step:
  "k \<noteq> bindings_created \<Longrightarrow> stats (snd (bind_step ev p v s)) k = stats s k"
  by (simp add: bind_step_def call_api_eq split: sum.splits)

lemma stats_import_and_bind:
  "k \<noteq> carmis_imported \<Longrightarrow> k \<noteq> bindings_created \<Longrightarrow>
   stats (snd (import_and_bind ev p v carmis s)) k = stats s k"
  by (simp add: import_and_bind_def Let_def stats_bind_step stats_import_loop_items
      stats_import_batches)

lemma stats_carmis_for_goods:
  "k \<noteq> vinv_created \<Longrightarrow> k \<noteq> carmis_imported \<Longrightarrow> k \<noteq> bindings_created \<Longrightarrow>
   stats (snd (migrate_carmis_for_goods ev gid pid s)) k = stats s k"
  by (simp add: migrate_carmis_for_goods_def call_api_eq stats_import_and_bind split: sum.splits)

lemma stats_carmis_unit:
  "k \<noteq> vinv_created \<Longrightarrow> k \<noteq> carmis_imported \<Longrightarrow> k \<noteq> bindings_created \<Longrightarrow>
   stats (migrate_carmis_unit ev gp s) k = stats s k"
  by (simp add: migrate_carmis_unit_eq stats_carmis_for_goods split: sum.splits)

lemma stats_carmis_loop:
  "k \<noteq> vinv_created \<Longrightarrow> k \<noteq> carmis_imported \<Longrightarrow> k \<noteq> bindings_created \<Longrightarrow>
   stats (migrate_carmis_loop ev todo s) k = stats s k"
  by (induction todo arbitrary: s) (simp_all add: stats_carmis_unit)

lemma stats_migrate_carmis:
  "k \<noteq> vinv_created \<Longrightarrow> k \<noteq> carmis_imported \<Longrightarrow> k \<noteq> bindings_created \<Longrightarrow>
   stats (snd (migrate_carmis ev s)) k = stats s k"
  by (simp add: migrate_carmis_def stats_carmis_loop split: sum.splits)

lemma stats_coupon_try:
  "k \<noteq> coupons_created \<Longrightarrow> stats (snd (coupon_try ev cp s)) k = stats s k"
  by (simp add: coupon_try_def call_api_eq split: sum.splits)

lemma stats_migrate_coupon:
  "k \<noteq> coupons_created \<Longrightarrow> k \<noteq> coupons_failed \<Longrightarrow>
   stats (migrate_coupon ev cp s) k = stats s k"
  by (simp add: migrate_coupon_eq stats_coupon_try split: sum.splits)

lemma stats_coupons_loop:
  "k \<noteq> coupons_created \<Longrightarrow> k \<noteq> coupons_failed \<Longrightarrow>
   stats (migrate_coupons_loop ev cs s) k = stats s k"
  by (induction cs arbitrary: s) (simp_all add: stats_migrate_coupon)

lemma stats_migrate_coupons:
  "k \<noteq> coupons_created \<Longrightarrow> k \<noteq> coupons_failed \<Longrightarrow>
   stats (snd (migrate_coupons ev s)) k = stats s k"
  by (simp add: migrate_coupons_def stats_coupons_loop split: sum.splits)

section \<open>Facts about the run\<close>

lemma run_cases:
  "snd (run ev s) = s \<or> snd (run ev s) = after_products ev s \<or>
   snd (run ev s) = after_carmis ev s \<or> snd (run ev s) = after_coupons ev s \<or>
   (fst (run ev s) = Inr () \<and> snd (run ev s) = print_summary (after_coupons ev s))"
  by (auto simp: run_def after_products_def after_carmis_def after_coupons_def
      split: sum.splits prod.splits)

lemma run_finished:
  "fst (run ev s) = Inr () \<Longrightarrow> snd (run ev s) = print_summary (after_coupons ev s)"
  by (auto simp: run_def after_products_def after_carmis_def after_coupons_def
      split: sum.splits prod.splits)

lemma stats_after_products:
  "k \<noteq> products_created \<Longrightarrow> k \<noteq> products_failed \<Longrightarrow> stats (after_products ev s) k = stats s k"
  by (simp add: after_products_def stage_def stats_migrate_products)

lemma stats_after_carmis:
  "k \<noteq> vinv_created \<Longrightarrow> k \<noteq> carmis_imported \<Longrightarrow> k \<noteq> bindings_created \<Longrightarrow>
   stats (after_carmis ev s) k = stats (after_products ev s) k"
  by (simp add: after_carmis_def stage_def stats_migrate_carmis)

lemma stats_after_coupons:
  "k \<noteq> coupons_created \<Longrightarrow> k \<noteq> coupons_failed \<Longrightarrow>
   stats (after_coupons ev s) k = stats (after_carmis ev s) k"
  by (simp add: after_coupons_def stage_def stats_migrate_coupons)

lemma stats_print_summary [simp]: "stats (print_summary s) = stats s"
  by (simp add: print_summary_def)

section \<open>The statistic of skipped products\<close>

text \<open>
  Claim C9. The counter \<^verbatim>\<open>products_skipped\<close> starts at zero and no operation of the
  engine changes it, in any mode and under any options (also with \<^verbatim>\<open>skip_disabled\<close>,
  which only changes the query). So it is zero after every run, and when the run
  reaches \<^verbatim>\<open>print_summary\<close> the row of skipped products in the result table shows zero.
\<close>

theorem products_skipped_stays_zero:
  "stats (snd (run ev MigrationEngine_init)) products_skipped = 0 \<and>
   (fst (run ev MigrationEngine_init) = Inr () \<longrightarrow>
    (\<exists>rows. report (snd (run ev MigrationEngine_init)) = Some rows \<and>
            map_of rows products_skipped = Some 0))"
proof -
  have init: "stats MigrationEngine_init products_skipped = 0"
    by (simp add: MigrationEngine_init_def)
  have a: "stats (after_products ev MigrationEngine_init) products_skipped = 0"
    by (simp add: stats_after_products init)
  have b: "stats (after_carmis ev MigrationEngine_init) products_skipped = 0"
    by (simp add: stats_after_carmis a)
  have c: "stats (after_coupons ev MigrationEngine_init) products_skipped = 0"
    by (simp add: stats_after_coupons b)
  have "stats (snd (run ev MigrationEngine_init)) products_skipped = 0"
    using run_cases[of ev MigrationEngine_init] init a b c by auto
  moreover have "\<exists>rows. report (print_summary (after_coupons ev MigrationEngine_init)) = Some rows \<and>
            map_of rows products_skipped = Some 0"
    by (simp add: print_summary_def stat_rows_def c)
  ultimately show ?thesis
    by (simp add: run_finished)
qed


theorem products_skipped_stays_zero_witness:
  "fst (run (demo_env False 2) MigrationEngine_init) = Inr () \<and>
   (\<exists>rows. report (snd (run (demo_env False 2) MigrationEngine_init)) = Some rows \<and>
           map_of rows products_skipped = Some 0)"
proof -
  have h: "fst (run (demo_env False 2) MigrationEngine_init) = Inr ()"
    by (simp add: engine_defs demo_defs)
  show ?thesis
    using h products_skipped_stays_zero [of "demo_env False 2"] by simp
qed

section \<open>Coupon payloads and the calls of the coupon stage\<close>

lemma al_product_ids_empty: "al_product_ids [] refs = Inr []"
  by (induction refs) simp_all

lemma promo_code_payload_scope:
  "promo_code_payload cp ids = Inr p \<Longrightarrow>
   (ids = [] \<longrightarrow> pc_product_scope p = ''all'' \<and> pc_product_ids p = None) \<and>
   (ids \<noteq> [] \<longrightarrow> pc_product_scope p = ''specific'' \<and> pc_product_ids p = Some ids)"
  by (auto simp: promo_code_payload_def split: option.splits)

lemma product_map_coupon_try: "product_map (snd (coupon_try ev cp s)) = product_map s"
  by (simp add: coupon_try_def call_api_eq split: sum.splits)

lemma product_map_migrate_coupon: "product_map (migrate_coupon ev cp s) = product_map s"
  by (simp add: migrate_coupon_eq product_map_coupon_try split: sum.splits)

lemma history_coupon_try:
  "history (snd (coupon_try ev cp s)) = history s \<or>
   (\<exists>p r. coupon_payload ev (product_map s) cp = Inr p \<and> \<not> dry_run (opts ev) \<and>
          history (snd (coupon_try ev cp s)) = history s @ [(CreatePromoCode p, r)])"
  by (simp add: coupon_try_def call_api_eq split: sum.splits)

lemma history_migrate_coupon:
  "history (migrate_coupon ev cp s) = history s \<or>
   (\<exists>p r. coupon_payload ev (product_map s) cp = Inr p \<and> \<not> dry_run (opts ev) \<and>
          history (migrate_coupon ev cp s) = history s @ [(CreatePromoCode p, r)])"
  using history_coupon_try[of ev cp s]
  by (simp add: migrate_coupon_eq split: sum.splits)

lemma history_coupons_loop:
  "\<exists>new. history (migrate_coupons_loop ev cs s) = history s @ new \<and>
         (\<forall>c r. (c, r) \<in> set new \<longrightarrow>
            (\<exists>cp p. cp \<in> set cs \<and> c = CreatePromoCode p \<and>
                    coupon_payload ev (product_map s) cp = Inr p))"
proof (induction cs arbitrary: s)
  case Nil
  show ?case by simp
next
  case (Cons cp cs)
  obtain new where new: "history (migrate_coupons_loop ev cs (migrate_coupon ev cp s)) =
        history (migrate_coupon ev cp s) @ new"
     and calls: "\<forall>c r. (c, r) \<in> set new \<longrightarrow>
            (\<exists>cp' p. cp' \<in> set cs \<and> c = CreatePromoCode p \<and>
                    coupon_payload ev (product_map s) cp' = Inr p)"
    using Cons.IH[of "migrate_coupon ev cp s"] by (auto simp: product_map_migrate_coupon)
  from history_migrate_coupon[of ev cp s] show ?case
  proof
    assume "history (migrate_coupon ev cp s) = history s"
    with new calls show ?thesis by (intro exI[of _ new]) (simp, blast)
  next
    assume "\<exists>p r. coupon_payload ev (product_map s) cp = Inr p \<and> \<not> dry_run (opts ev) \<and>
          history (migrate_coupon ev cp s) = history s @ [(CreatePromoCode p, r)]"
    then obtain p r where "coupon_payload ev (product_map s) cp = Inr p"
      "history (migrate_coupon ev cp s) = history s @ [(CreatePromoCode p, r)]" by blast
    with new calls show ?thesis
      by (intro exI[of _ "(CreatePromoCode p, r) # new"]) (simp, blast)
  qed
qed

lemma history_migrate_coupons:
  "\<exists>new. history (snd (migrate_coupons ev s)) = history s @ new \<and>
         (\<forall>c r. (c, r) \<in> set new \<longrightarrow>
            (\<exists>cp p. c = CreatePromoCode p \<and> coupon_payload ev (product_map s) cp = Inr p))"
proof (cases "get_coupons (reader ev)")
  case (Inl e)
  then show ?thesis by (simp add: migrate_coupons_def)
next
  case (Inr cs)
  show ?thesis
    using history_coupons_loop[of ev cs "log_add (Info (FoundCoupons (length cs))) s"]
    by (simp add: migrate_coupons_def Inr) blast
qed

lemma coupon_payload_empty_map:
  "coupon_payload ev [] cp = Inr p \<Longrightarrow> pc_product_scope p = ''all'' \<and> pc_product_ids p = None"
  by (auto simp: coupon_payload_def al_product_ids_empty split: sum.splits
      dest: promo_code_payload_scope)

section \<open>The stages on an empty product map\<close>

lemma succeeded_append [simp]: "succeeded (xs @ ys) = succeeded xs + succeeded ys"
  by (simp add: succeeded_def)

lemma promo_calls_Cons:
  "promo_calls ev (cp # cs) =
     (case coupon_payload ev [] cp of Inl e \<Rightarrow> [] | Inr p \<Rightarrow> [CreatePromoCode p]) @ promo_calls ev cs"
  by (simp add: promo_calls_def)

lemma promo_calls_Nil [simp]: "promo_calls ev [] = []"
  by (simp add: promo_calls_def)

lemma migrate_coupon_exact:
  assumes "product_map s = []"
  shows "\<exists>new. history (migrate_coupon ev cp s) = history s @ new \<and>
     map fst new = (if dry_run (opts ev) then [] else promo_calls ev [cp]) \<and>
     stats (migrate_coupon ev cp s) coupons_created =
       stats s coupons_created +
       (if dry_run (opts ev) then int (length (promo_calls ev [cp])) else int (succeeded new)) \<and>
     stats (migrate_coupon ev cp s) coupons_failed =
       stats s coupons_failed + 1 -
       (if dry_run (opts ev) then int (length (promo_calls ev [cp])) else int (succeeded new))"
proof (cases "coupon_payload ev [] cp")
  case (Inl e)
  then show ?thesis
    using assms by (simp add: migrate_coupon_eq coupon_try_def promo_calls_Cons succeeded_def)
next
  case (Inr p)
  show ?thesis
  proof (cases "dry_run (opts ev)")
    case True
    then show ?thesis
      using assms Inr by (simp add: migrate_coupon_eq coupon_try_def promo_calls_Cons)
  next
    case False
    show ?thesis
      using assms Inr False
      by (intro exI[of _ "[(CreatePromoCode p, client ev (history s) (CreatePromoCode p))]"])
         (simp add: migrate_coupon_eq coupon_try_def promo_calls_Cons call_api_eq succeeded_def
           recorded_def split: sum.splits)
  qed
qed

lemma coupons_loop_exact:
  assumes "product_map s = []"
  shows "\<exists>new. history (migrate_coupons_loop ev cs s) = history s @ new \<and>
     map fst new = (if dry_run (opts ev) then [] else promo_calls ev cs) \<and>
     stats (migrate_coupons_loop ev cs s) coupons_created =
       stats s coupons_created +
       (if dry_run (opts ev) then int (length (promo_calls ev cs)) else int (succeeded new)) \<and>
     stats (migrate_coupons_loop ev cs s) coupons_failed =
       stats s coupons_failed + int (length cs) -
       (if dry_run (opts ev) then int (length (promo_calls ev cs)) else int (succeeded new))"
  using assms
proof (induction cs arbitrary: s)
  case Nil
  show ?case by (simp add: succeeded_def)
next
  case (Cons cp cs)
  let ?s1 = "migrate_coupon ev cp s"
  have pm: "product_map ?s1 = []" using Cons.prems by (simp add: product_map_migrate_coupon)
  obtain n1 where n1: "history ?s1 = history s @ n1"
     "map fst n1 = (if dry_run (opts ev) then [] else promo_calls ev [cp])"
     "stats ?s1 coupons_created = stats s coupons_created +
       (if dry_run (opts ev) then int (length (promo_calls ev [cp])) else int (succeeded n1))"
     "stats ?s1 coupons_failed = stats s coupons_failed + 1 -
       (if dry_run (opts ev) then int (length (promo_calls ev [cp])) else int (succeeded n1))"
    using migrate_coupon_exact[OF Cons.prems, of ev cp] by blast
  obtain n2 where n2: "history (migrate_coupons_loop ev cs ?s1) = history ?s1 @ n2"
     "map fst n2 = (if dry_run (opts ev) then [] else promo_calls ev cs)"
     "stats (migrate_coupons_loop ev cs ?s1) coupons_created = stats ?s1 coupons_created +
       (if dry_run (opts ev) then int (length (promo_calls ev cs)) else int (succeeded n2))"
     "stats (migrate_coupons_loop ev cs ?s1) coupons_failed = stats ?s1 coupons_failed + int (length cs) -
       (if dry_run (opts ev) then int (length (promo_calls ev cs)) else int (succeeded n2))"
    using Cons.IH[OF pm] by blast
  have c: "promo_calls ev (cp # cs) = promo_calls ev [cp] @ promo_calls ev cs"
    by (simp add: promo_calls_def)
  show ?case
    using n1 n2 by (intro exI[of _ "n1 @ n2"]) (simp add: c)
qed

lemma promo_calls_scope:
  "CreatePromoCode p \<in> set (promo_calls ev cs) \<Longrightarrow>
   pc_product_scope p = ''all'' \<and> pc_product_ids p = None"
  by (auto simp: promo_calls_def split: sum.splits dest: coupon_payload_empty_map[OF sym])

text \<open>
  Claim C7, as the code has it. With an empty product map the stock stage returns at
  once: it logs the warning, and makes no call, changes no counter and no map. The
  coupon stage never looks at whether the product map is empty: it goes through every
  coupon of the source. In commit mode it sends one \<^verbatim>\<open>create_promo_code\<close> for each
  coupon whose payload can be built, in the order of the source, and counts the calls
  that returned as created and every other coupon as failed; in simulate mode it sends
  nothing and counts the coupons whose payload can be built as created, the others as
  failed. What the empty map changes is the scope: every promo code the stage creates
  applies to all products and carries no \<^verbatim>\<open>product_ids\<close>.
\<close>

theorem empty_product_map_stages:
  assumes "product_map s = []"
  shows "migrate_carmis ev s = (Inr (), log_add (Warning NoProductsMapped) s) \<and>
         (\<exists>new. history (snd (migrate_coupons ev s)) = history s @ new \<and>
            (\<forall>c r. (c, r) \<in> set new \<longrightarrow>
               (\<exists>p. c = CreatePromoCode p \<and> pc_product_scope p = ''all'' \<and>
                    pc_product_ids p = None))) \<and>
         (get_coupons (reader ev) = Inr cs \<longrightarrow>
            fst (migrate_coupons ev s) = Inr () \<and>
            (\<exists>new. history (snd (migrate_coupons ev s)) = history s @ new \<and>
               map fst new = (if dry_run (opts ev) then [] else promo_calls ev cs) \<and>
               stats (snd (migrate_coupons ev s)) coupons_created =
                 stats s coupons_created +
                 (if dry_run (opts ev) then int (length (promo_calls ev cs))
                  else int (succeeded new)) \<and>
               stats (snd (migrate_coupons ev s)) coupons_failed =
                 stats s coupons_failed + int (length cs) -
                 (if dry_run (opts ev) then int (length (promo_calls ev cs))
                  else int (succeeded new)))) \<and>
         (\<forall>p. CreatePromoCode p \<in> set (promo_calls ev cs) \<longrightarrow>
                pc_product_scope p = ''all'' \<and> pc_product_ids p = None) \<and>
         length (promo_calls ev cs) =
           length (filter (\<lambda>cp. \<exists>p. coupon_payload ev [] cp = Inr p) cs)"
proof -
  have 1: "migrate_carmis ev s = (Inr (), log_add (Warning NoProductsMapped) s)"
    using assms by (simp add: migrate_carmis_def)
  obtain new where "history (snd (migrate_coupons ev s)) = history s @ new"
    and "\<forall>c r. (c, r) \<in> set new \<longrightarrow>
            (\<exists>cp p. c = CreatePromoCode p \<and> coupon_payload ev (product_map s) cp = Inr p)"
    using history_migrate_coupons[of ev s] by blast
  then have 2: "\<exists>new. history (snd (migrate_coupons ev s)) = history s @ new \<and>
            (\<forall>c r. (c, r) \<in> set new \<longrightarrow>
               (\<exists>p. c = CreatePromoCode p \<and> pc_product_scope p = ''all'' \<and>
                    pc_product_ids p = None))"
    using assms by (metis coupon_payload_empty_map)
  have 3: "get_coupons (reader ev) = Inr cs \<longrightarrow>
            fst (migrate_coupons ev s) = Inr () \<and>
            (\<exists>new. history (snd (migrate_coupons ev s)) = history s @ new \<and>
               map fst new = (if dry_run (opts ev) then [] else promo_calls ev cs) \<and>
               stats (snd (migrate_coupons ev s)) coupons_created =
                 stats s coupons_created +
                 (if dry_run (opts ev) then int (length (promo_calls ev cs))
                  else int (succeeded new)) \<and>
               stats (snd (migrate_coupons ev s)) coupons_failed =
                 stats s coupons_failed + int (length cs) -
                 (if dry_run (opts ev) then int (length (promo_calls ev cs))
                  else int (succeeded new)))"
  proof
    assume cs: "get_coupons (reader ev) = Inr cs"
    show "fst (migrate_coupons ev s) = Inr () \<and>
            (\<exists>new. history (snd (migrate_coupons ev s)) = history s @ new \<and>
               map fst new = (if dry_run (opts ev) then [] else promo_calls ev cs) \<and>
               stats (snd (migrate_coupons ev s)) coupons_created =
                 stats s coupons_created +
                 (if dry_run (opts ev) then int (length (promo_calls ev cs))
                  else int (succeeded new)) \<and>
               stats (snd (migrate_coupons ev s)) coupons_failed =
                 stats s coupons_failed + int (length cs) -
                 (if dry_run (opts ev) then int (length (promo_calls ev cs))
                  else int (succeeded new)))"
    proof (cases "cs = []")
      case True
      then show ?thesis by (simp add: migrate_coupons_def cs succeeded_def)
    next
      case False
      have "product_map (log_add (Info (FoundCoupons (length cs))) s) = []"
        using assms by simp
      from coupons_loop_exact[OF this, of ev cs] show ?thesis
        using False by (simp add: migrate_coupons_def cs)
    qed
  qed
  have 4: "\<forall>p. CreatePromoCode p \<in> set (promo_calls ev cs) \<longrightarrow>
                pc_product_scope p = ''all'' \<and> pc_product_ids p = None"
    using promo_calls_scope by blast
  have 5: "length (promo_calls ev cs) =
           length (filter (\<lambda>cp. \<exists>p. coupon_payload ev [] cp = Inr p) cs)"
    by (induction cs) (simp_all add: promo_calls_Cons split: sum.splits)
  from 1 2 3 4 5 show ?thesis by (intro conjI)
qed

text \<open>
  The claim as stated fails for the coupon stage: from a fresh engine (no product
  mapped) in commit mode, the stage calls \<^verbatim>\<open>create_promo_code\<close> and counts one coupon
  created.
\<close>

theorem coupon_stage_with_empty_map_counterexample:
  "product_map MigrationEngine_init = [] \<and>
   history (snd (migrate_coupons (demo_env False 2) MigrationEngine_init)) \<noteq> history MigrationEngine_init \<and>
   stats (snd (migrate_coupons (demo_env False 2) MigrationEngine_init)) coupons_created
     = stats MigrationEngine_init coupons_created + 1"
  by (simp add: engine_defs demo_defs al_product_ids_empty)

theorem empty_product_map_stages_witness:
  "product_map MigrationEngine_init = [] \<and>
   get_coupons (reader (demo_env False 2)) = Inr demo_coupons \<and>
   fst (migrate_carmis (demo_env False 2) MigrationEngine_init) = Inr () \<and>
   fst (migrate_coupons (demo_env False 2) MigrationEngine_init) = Inr () \<and>
   (\<exists>p. map fst (history (snd (migrate_coupons (demo_env False 2) MigrationEngine_init))) =
           [CreatePromoCode p] \<and>
        pc_code p = ''SAVE10'' \<and> pc_product_scope p = ''all'' \<and> pc_product_ids p = None) \<and>
   stats (snd (migrate_coupons (demo_env False 2) MigrationEngine_init)) coupons_created +
   stats (snd (migrate_coupons (demo_env False 2) MigrationEngine_init)) coupons_failed = 1"
proof -
  let ?ev = "demo_env False 2"
  let ?s = "snd (migrate_coupons ?ev MigrationEngine_init)"
  let ?p = "\<lparr>pc_code = ''SAVE10'', pc_name = ''djk-coupon-'' @ str_int 3, pc_description_id = 3,
             pc_discount_type = ''fixed'', pc_discount_value = 10, pc_total_quantity = 5,
             pc_status = ''active'', pc_product_ids = None, pc_product_scope = ''all''\<rparr>"
  have e: "product_map MigrationEngine_init = []"
    by (simp add: MigrationEngine_init_def)
  have g: "get_coupons (reader ?ev) = Inr demo_coupons"
    by (simp add: demo_defs)
  have c: "promo_calls ?ev demo_coupons = [CreatePromoCode ?p]"
    by (simp add: promo_calls_def coupon_payload_def promo_code_payload_def al_product_ids_empty
        demo_defs)
  have d: "\<not> dry_run (opts ?ev)" by (simp add: demo_defs)
  have h0: "history MigrationEngine_init = []" "stats MigrationEngine_init coupons_created = 0"
    "stats MigrationEngine_init coupons_failed = 0" "int (length demo_coupons) = 1"
    by (simp_all add: MigrationEngine_init_def demo_coupons_def)
  note T = empty_product_map_stages[OF e, of ?ev demo_coupons]
  have m: "fst (migrate_carmis ?ev MigrationEngine_init) = Inr ()"
    using T[THEN conjunct1] by simp
  have "fst (migrate_coupons ?ev MigrationEngine_init) = Inr () \<and>
     (\<exists>new. history ?s = history MigrationEngine_init @ new \<and>
        map fst new = (if dry_run (opts ?ev) then [] else promo_calls ?ev demo_coupons) \<and>
        stats ?s coupons_created = stats MigrationEngine_init coupons_created +
          (if dry_run (opts ?ev) then int (length (promo_calls ?ev demo_coupons))
           else int (succeeded new)) \<and>
        stats ?s coupons_failed = stats MigrationEngine_init coupons_failed + int (length demo_coupons) -
          (if dry_run (opts ?ev) then int (length (promo_calls ?ev demo_coupons))
           else int (succeeded new)))"
    by (rule mp[OF T[THEN conjunct2, THEN conjunct2, THEN conjunct1] g])
  then have r: "fst (migrate_coupons ?ev MigrationEngine_init) = Inr ()"
    and X: "\<exists>new. history ?s = history MigrationEngine_init @ new \<and>
        map fst new = (if dry_run (opts ?ev) then [] else promo_calls ?ev demo_coupons) \<and>
        stats ?s coupons_created = stats MigrationEngine_init coupons_created +
          (if dry_run (opts ?ev) then int (length (promo_calls ?ev demo_coupons))
           else int (succeeded new)) \<and>
        stats ?s coupons_failed = stats MigrationEngine_init coupons_failed + int (length demo_coupons) -
          (if dry_run (opts ?ev) then int (length (promo_calls ?ev demo_coupons))
           else int (succeeded new))"
    by (rule conjunct1, rule conjunct2)
  from X obtain new where N: "history ?s = history MigrationEngine_init @ new \<and>
        map fst new = (if dry_run (opts ?ev) then [] else promo_calls ?ev demo_coupons) \<and>
        stats ?s coupons_created = stats MigrationEngine_init coupons_created +
          (if dry_run (opts ?ev) then int (length (promo_calls ?ev demo_coupons))
           else int (succeeded new)) \<and>
        stats ?s coupons_failed = stats MigrationEngine_init coupons_failed + int (length demo_coupons) -
          (if dry_run (opts ?ev) then int (length (promo_calls ?ev demo_coupons))
           else int (succeeded new))" ..
  note n = N[THEN conjunct1] N[THEN conjunct2, THEN conjunct1]
    N[THEN conjunct2, THEN conjunct2, THEN conjunct1] N[THEN conjunct2, THEN conjunct2, THEN conjunct2]
  have hs: "map fst (history ?s) = [CreatePromoCode ?p]"
    using n(1) n(2) h0(1) d c by simp
  have sc: "pc_product_scope ?p = ''all'' \<and> pc_product_ids ?p = None"
    by (rule mp[OF spec[OF T[THEN conjunct2, THEN conjunct2, THEN conjunct2, THEN conjunct1], of ?p]])
       (simp add: c)
  have code: "pc_code ?p = ''SAVE10''" by simp
  have ex: "\<exists>p. map fst (history ?s) = [CreatePromoCode p] \<and>
        pc_code p = ''SAVE10'' \<and> pc_product_scope p = ''all'' \<and> pc_product_ids p = None"
    using hs code sc by (intro exI[of _ ?p] conjI) simp_all
  have tot: "stats ?s coupons_created + stats ?s coupons_failed = 1"
    using n(3) n(4) h0 by simp
  from e g m r ex tot show ?thesis by (intro conjI)
qed

section \<open>The product scope of a coupon\<close>




section \<open>Batches of single-use codes, reusable codes one by one\<close>

lemma concat_batches:
  "0 < b \<Longrightarrow> concat (map (\<lambda>i. take b (drop i xs)) (range_step i (length xs) b)) = drop i xs"
proof (induction i "length xs" b rule: range_step.induct)
  case (1 i b)
  show ?case
  proof (cases "i < length xs")
    case True
    with 1 have "concat (map (\<lambda>i. take b (drop i xs)) (range_step (i + b) (length xs) b)) = drop (i + b) xs"
      by simp
    moreover have "take b (drop i xs) @ drop (i + b) xs = drop i xs"
      by (metis add.commute append_take_drop_id drop_drop)
    ultimately show ?thesis
      using True 1(2) by (subst range_step.simps) simp
  next
    case False
    then show ?thesis by (subst range_step.simps) simp
  qed
qed

lemma ceil_step:
  fixes m b :: nat
  assumes "0 < b" "0 < m"
  shows "(m + b - 1) div b = Suc ((m - b + b - 1) div b)"
proof (cases "b \<le> m")
  case True
  define a where "a = m - 1"
  have 1: "m + b - 1 = a + b" using assms by (simp add: a_def)
  have 2: "m - b + b - 1 = a" using True by (simp add: a_def)
  have "(a + b) div b = Suc (a div b)" using assms by simp
  then show ?thesis unfolding 1 2 .
next
  case False
  then have "(m - b + b - 1) div b = 0" using assms by simp
  moreover have "(m + b - 1) div b = 1"
    by (rule div_nat_eqI) (use False assms in simp_all)
  ultimately show ?thesis by simp
qed

lemma length_range_step:
  "0 < b \<Longrightarrow> length (range_step i n b) = (n - i + b - 1) div b"
proof (induction i n b rule: range_step.induct)
  case (1 i n b)
  show ?case
  proof (cases "i < n")
    case True
    with 1 have ih: "length (range_step (i + b) n b) = (n - (i + b) + b - 1) div b" by simp
    have "(n - i + b - 1) div b = Suc ((n - i - b + b - 1) div b)"
      using ceil_step[of b "n - i"] True 1(2) by simp
    moreover have "n - (i + b) = n - i - b" by simp
    moreover have "length (range_step i n b) = Suc (length (range_step (i + b) n b))"
      using True 1(2) by (subst range_step.simps) simp
    ultimately show ?thesis
      using ih by (simp only:)
  next
    case False
    then have "(n - i + b - 1) div b = 0" using 1(2) by simp
    with False show ?thesis by (subst range_step.simps) simp
  qed
qed

lemma div_is_ceiling:
  fixes n b :: nat
  assumes "0 < b"
  shows "(n + b - 1) div b = nat \<lceil>real n / real b\<rceil>"
proof -
  define q where "q = (n + b - 1) div b"
  have lo: "q * b \<le> n + b - 1" by (simp add: q_def)
  have hi: "n + b - 1 < b + q * b"
    unfolding q_def using assms by (rule dividend_less_div_times)
  from hi assms have "n \<le> q * b" by simp
  then have "real n \<le> real (q * b)" by (rule of_nat_mono)
  then have up: "real n / real b \<le> of_int (int q)"
    using assms by (simp add: pos_divide_le_eq)
  from lo assms have "q * b < n + b" by simp
  then have "real (q * b) < real (n + b)" by (simp only: of_nat_less_iff)
  then have "(real q - 1) * real b < real n" by (simp add: algebra_simps)
  then have down: "of_int (int q) - 1 < real n / real b"
    using assms by (simp add: pos_less_divide_eq)
  have "\<lceil>real n / real b\<rceil> = int q"
    using down up by (rule ceiling_unique)
  then show ?thesis by (simp add: q_def)
qed

lemma batches_of_facts:
  assumes "0 < b"
  shows "concat (batches_of b xs) = xs"
    and "length (batches_of b xs) = nat \<lceil>real (length xs) / real b\<rceil>"
proof -
  show "concat (batches_of b xs) = xs"
    using concat_batches[OF assms, of xs 0] by (simp add: batches_of_def)
  show "length (batches_of b xs) = nat \<lceil>real (length xs) / real b\<rceil>"
    using length_range_step[OF assms, of 0 "length xs"] div_is_ceiling[OF assms, of "length xs"]
    by (simp add: batches_of_def)
qed

lemma history_import_batches:
  "\<exists>new. history (import_batches ev v items starts s) = history s @ new \<and>
         map fst new =
           map (\<lambda>i. ImportVirtualStock v (take (nat (batch_size (opts ev))) (drop i items))) starts"
proof (induction starts arbitrary: s)
  case Nil
  show ?case by simp
next
  case (Cons i rest)
  define b where "b = nat (batch_size (opts ev))"
  define c where "c = ImportVirtualStock v (take b (drop i items))"
  define r where "r = client ev (history s) c"
  define s1 where "s1 = (case r of
       Inl e \<Rightarrow> log_add (Error (FailedBatch (int (i div b) + 1) v e)) (recorded c r s)
     | Inr j \<Rightarrow> incr carmis_imported (int (length (take b (drop i items)))) (recorded c r s))"
  have step: "import_batches ev v items (i # rest) s = import_batches ev v items rest s1"
    by (simp add: call_api_eq Let_def s1_def r_def c_def b_def split: sum.splits)
  have h1: "history s1 = history s @ [(c, r)]"
    by (simp add: s1_def split: sum.splits)
  from Cons.IH[of s1] obtain new where
    "history (import_batches ev v items rest s1) = history s1 @ new"
    "map fst new = map (\<lambda>i. ImportVirtualStock v (take b (drop i items))) rest"
    unfolding b_def by blast
  then show ?case
    unfolding step b_def[symmetric]
    by (intro exI[of _ "(c, r) # new"]) (simp add: h1 c_def)
qed

lemma returned_stock_id_eq:
  "returned_stock_id r =
     (case r of
        Inl e \<Rightarrow> None
      | Inr result \<Rightarrow>
          (case extract_stock_id result of
             Inl e \<Rightarrow> None
           | Inr sid \<Rightarrow> if truthy sid then Some sid else None))"
proof (cases r)
  case (Inl e)
  then show ?thesis by simp
next
  case (Inr result)
  show ?thesis
  proof (cases result)
    case (JDict d)
    show ?thesis
    proof (cases "map_of d ''stock''")
      case None
      then show ?thesis by (simp add: Inr JDict extract_stock_id_def)
    next
      case (Some st)
      then show ?thesis
        by (cases st) (simp_all add: Inr JDict extract_stock_id_def split: option.splits)
    qed
  qed (simp_all add: Inr extract_stock_id_def)
qed

lemma history_loop_item_try:
  "\<exists>r seg. history (snd (loop_item_try ev v c s)) =
             history s @ (CreateVirtualStockItem v (carmi_text c), r) # seg \<and>
           (case returned_stock_id r of
              None \<Rightarrow> seg = []
            | Some sid \<Rightarrow> (\<exists>r2. seg = [(ReserveStockItem v sid, r2)]))"
  by (cases "client ev (history s) (CreateVirtualStockItem v (carmi_text c))")
     (simp_all add: returned_stock_id_eq loop_item_try_def call_api_eq split: sum.splits)

lemma item_calls_step:
  assumes "case returned_stock_id r of None \<Rightarrow> seg = []
           | Some sid \<Rightarrow> (\<exists>r2. seg = [(ReserveStockItem v sid, r2)])"
      and "item_calls v cs new"
  shows "item_calls v (c # cs) ((CreateVirtualStockItem v (carmi_text c), r) # seg @ new)"
  using assms by (cases "returned_stock_id r") auto

lemma history_import_loop_items:
  "\<exists>new. history (import_loop_items ev v cs s) = history s @ new \<and> item_calls v cs new"
proof (induction cs arbitrary: s)
  case Nil
  show ?case by simp
next
  case (Cons c cs)
  define s1 where "s1 = (case fst (loop_item_try ev v c s) of
          Inl e \<Rightarrow> log_add (Error (FailedLoopCarmi v e)) (snd (loop_item_try ev v c s))
        | Inr u \<Rightarrow> snd (loop_item_try ev v c s))"
  have step: "import_loop_items ev v (c # cs) s = import_loop_items ev v cs s1"
    by (simp only: import_loop_items_Cons s1_def)
  have "history s1 = history (snd (loop_item_try ev v c s))"
    by (simp add: s1_def split: sum.splits)
  with history_loop_item_try[of ev v c s] obtain r seg where
    h1: "history s1 = history s @ (CreateVirtualStockItem v (carmi_text c), r) # seg"
    and seg: "case returned_stock_id r of None \<Rightarrow> seg = []
              | Some sid \<Rightarrow> (\<exists>r2. seg = [(ReserveStockItem v sid, r2)])"
    by auto
  from Cons.IH[of s1] obtain new where
    new: "history (import_loop_items ev v cs s1) = history s1 @ new" "item_calls v cs new"
    by blast
  show ?case
    unfolding step
    using new(1) h1 item_calls_step[OF seg new(2), of c]
    by (intro exI[of _ "(CreateVirtualStockItem v (carmi_text c), r) # seg @ new"]) simp
qed

lemma history_bind_step:
  "\<exists>rest. history (snd (bind_step ev p v s)) = history s @ rest \<and>
          (rest = [] \<or> (\<exists>r. rest = [(BindVirtualInventory p v, r)]))"
  by (simp add: bind_step_def call_api_eq split: sum.splits)

lemma history_import_and_bind:
  assumes "0 < batch_size (opts ev)"
  shows "\<exists>impcalls items rest.
           history (snd (import_and_bind ev p v carmis s)) = history s @ impcalls @ items @ rest \<and>
           map fst impcalls =
             map (ImportVirtualStock v) (batches_of (nat (batch_size (opts ev))) (normal_items carmis)) \<and>
           item_calls v (loop_items carmis) items \<and>
           (rest = [] \<or> (\<exists>r. rest = [(BindVirtualInventory p v, r)]))"
proof -
  define b where "b = nat (batch_size (opts ev))"
  define s1 where
    "s1 = import_batches ev v (normal_items carmis) (range_step 0 (length (normal_items carmis)) b) s"
  define s2 where "s2 = import_loop_items ev v (loop_items carmis) s1"
  define s3 where "s3 = (if loop_items carmis = [] then s2
        else log_add (Info (ImportedLoopCarmis (length (loop_items carmis)) v)) s2)"
  have eq: "import_and_bind ev p v carmis s = bind_step ev p v s3"
    using assms by (simp add: import_and_bind_def Let_def s3_def s2_def s1_def b_def)
  obtain impcalls where i: "history s1 = history s @ impcalls"
    "map fst impcalls = map (ImportVirtualStock v) (batches_of b (normal_items carmis))"
    using history_import_batches[of ev v "normal_items carmis"
        "range_step 0 (length (normal_items carmis)) b" s]
    unfolding s1_def b_def batches_of_def by (auto simp: comp_def)
  obtain items where j: "history s2 = history s1 @ items" "item_calls v (loop_items carmis) items"
    using history_import_loop_items[of ev v "loop_items carmis" s1] unfolding s2_def by blast
  have k: "history s3 = history s2" by (simp add: s3_def)
  obtain rest where r: "history (snd (bind_step ev p v s3)) = history s3 @ rest"
    "rest = [] \<or> (\<exists>r. rest = [(BindVirtualInventory p v, r)])"
    using history_bind_step[of ev p v s3] by blast
  show ?thesis
    unfolding eq b_def[symmetric]
    using i j k r by (intro exI[of _ impcalls] exI[of _ items] exI[of _ rest]) simp
qed

lemma create_reserve_pairs_Cons:
  "create_reserve_pairs v (c # cs) (sid # sids) =
     CreateVirtualStockItem v (carmi_text c) # ReserveStockItem v sid # create_reserve_pairs v cs sids"
  by (simp add: create_reserve_pairs_def)

lemma item_calls_pairs:
  "item_calls v cs h \<Longrightarrow>
   (\<forall>cr \<in> set h. \<forall>t. fst cr = CreateVirtualStockItem v t \<longrightarrow> returned_stock_id (snd cr) \<noteq> None) \<Longrightarrow>
   \<exists>sids. length sids = length cs \<and> map fst h = create_reserve_pairs v cs sids"
proof (induction v cs h rule: item_calls.induct)
  case (1 v h)
  then show ?case by (simp add: create_reserve_pairs_def)
next
  case (2 v c cs)
  then show ?case by simp
next
  case (3 v c cs call1 r1 h)
  from "3.prems"(1) have c1: "call1 = CreateVirtualStockItem v (carmi_text c)" by simp
  with "3.prems"(2) obtain sid where sid: "returned_stock_id r1 = Some sid" by fastforce
  with "3.prems"(1) obtain call2 r2 h2 where h: "h = (call2, r2) # h2"
    and c2: "call2 = ReserveStockItem v sid" and rest: "item_calls v cs h2"
    by (cases h) auto
  have "\<forall>cr \<in> set h2. \<forall>t. fst cr = CreateVirtualStockItem v t \<longrightarrow> returned_stock_id (snd cr) \<noteq> None"
    using "3.prems"(2) h by simp
  from "3.IH"(2)[OF sid h refl rest this] obtain sids where
    "length sids = length cs" "map fst h2 = create_reserve_pairs v cs sids" by blast
  then show ?case
    using c1 c2 h by (intro exI[of _ "sid # sids"]) (simp add: create_reserve_pairs_Cons)
qed

text \<open>
  Claim C3, as the code has it. A product's stock migration in commit mode, once its
  inventory exists (the creation returned the identifier \<open>v\<close>), with a positive batch
  size \<open>B\<close>. After the creation of the inventory the engine makes these calls and no
  others: first the bulk imports, then the calls for the reusable codes, then at most
  one binding. The bulk imports are the slices of the list of single-use codes (the
  rows with a text that are not flagged as reusable; a row without text is dropped),
  \<open>\<lceil>N / B\<rceil>\<close> of them for \<open>N\<close> such codes, and the batches put end to end give that
  list back, so every single-use code is in exactly one batch, in the source order,
  and no reusable code is in any. The reusable codes with a text are created one by
  one, in order; a creation is followed at once by the reservation of the stock id it
  returned exactly when its answer carries one, and by no reservation when it raised
  or its answer carries none. So when every creation returns a stock id, the calls
  for the reusable codes are the pairs of creation and reservation, code by code.
\<close>

theorem stock_migration_calls:
  assumes "\<not> dry_run (opts ev)"
      and "0 < batch_size (opts ev)"
      and "get_carmis_by_goods (reader ev) gid = Inr carmis"
      and "carmis \<noteq> []"
      and "client ev (history s) (CreateVirtualInventory gid) = Inr result"
      and "extract_id result = Inr v"
      and "truthy v"
  shows "\<exists>impcalls items rest.
           history (snd (migrate_carmis_for_goods ev gid pid s)) =
             history s @ (CreateVirtualInventory gid, Inr result) # impcalls @ items @ rest \<and>
           map fst impcalls =
             map (ImportVirtualStock v) (batches_of (nat (batch_size (opts ev))) (normal_items carmis)) \<and>
           length impcalls =
             nat \<lceil>real (length (normal_items carmis)) / real (nat (batch_size (opts ev)))\<rceil> \<and>
           concat (batches_of (nat (batch_size (opts ev))) (normal_items carmis)) =
             map carmi_text (filter (\<lambda>c. carmi_text c \<noteq> [] \<and> \<not> is_loop c) carmis) \<and>
           item_calls v (filter (\<lambda>c. carmi_text c \<noteq> [] \<and> is_loop c) carmis) items \<and>
           ((\<forall>cr \<in> set items. \<forall>t. fst cr = CreateVirtualStockItem v t \<longrightarrow>
                returned_stock_id (snd cr) \<noteq> None) \<longrightarrow>
            (\<exists>sids. length sids = length (filter (\<lambda>c. carmi_text c \<noteq> [] \<and> is_loop c) carmis) \<and>
                    map fst items =
                      create_reserve_pairs v (filter (\<lambda>c. carmi_text c \<noteq> [] \<and> is_loop c) carmis) sids)) \<and>
           (rest = [] \<or> (\<exists>r. rest = [(BindVirtualInventory pid v, r)]))"
proof -
  define b where "b = nat (batch_size (opts ev))"
  have b: "0 < b" using assms(2) by (simp add: b_def)
  define c where "c = CreateVirtualInventory gid"
  define s1 where "s1 = log_add (Info (CreatedInventory v gid))
        (incr vinv_created 1
           ((recorded c (Inr result) s)\<lparr>vinv_map := AList.update gid v (vinv_map (recorded c (Inr result) s))\<rparr>))"
  have eq: "migrate_carmis_for_goods ev gid pid s = import_and_bind ev pid v carmis s1"
    using assms by (simp add: migrate_carmis_for_goods_def call_api_eq s1_def c_def)
  have h1: "history s1 = history s @ [(c, Inr result)]"
    by (simp add: s1_def incr_def)
  obtain impcalls items rest where
    h: "history (snd (import_and_bind ev pid v carmis s1)) = history s1 @ impcalls @ items @ rest"
    and i: "map fst impcalls = map (ImportVirtualStock v) (batches_of b (normal_items carmis))"
    and j: "item_calls v (loop_items carmis) items"
    and k: "rest = [] \<or> (\<exists>r. rest = [(BindVirtualInventory pid v, r)])"
    using history_import_and_bind[OF assms(2), of pid v carmis s1] unfolding b_def by blast
  have "length impcalls = length (batches_of b (normal_items carmis))"
    using i by (metis length_map)
  then have n: "length impcalls = nat \<lceil>real (length (normal_items carmis)) / real b\<rceil>"
    by (simp add: batches_of_facts(2)[OF b])
  have cc: "concat (batches_of b (normal_items carmis)) =
      map carmi_text (filter (\<lambda>c. carmi_text c \<noteq> [] \<and> \<not> is_loop c) carmis)"
    by (simp add: batches_of_facts(1)[OF b] normal_items_def)
  have pairs: "(\<forall>cr \<in> set items. \<forall>t. fst cr = CreateVirtualStockItem v t \<longrightarrow>
                returned_stock_id (snd cr) \<noteq> None) \<longrightarrow>
            (\<exists>sids. length sids = length (loop_items carmis) \<and>
                    map fst items = create_reserve_pairs v (loop_items carmis) sids)"
    using item_calls_pairs[OF j] by blast
  show ?thesis
    unfolding eq b_def[symmetric]
    using h h1 i j k n cc pairs
    by (intro exI[of _ impcalls] exI[of _ items] exI[of _ rest]) (simp add: c_def loop_items_def)
qed

text \<open>
  The claim as stated fails. Product 7 has one reusable code and one single-use row
  without content, the batch size is 2, and the client answers the creation of a stock
  item with the empty object. The reusable code is created and never reserved, and no
  bulk import is made although there is one row that is not reusable.
\<close>

theorem reusable_code_not_reserved_counterexample:
  "\<not> dry_run (opts sparse_env) \<and> batch_size (opts sparse_env) = 2 \<and>
   get_carmis_by_goods (reader sparse_env) 7 = Inr sparse_carmis \<and>
   length (filter (\<lambda>c. \<not> is_loop c) sparse_carmis) = 1 \<and>
   length (filter is_loop sparse_carmis) = 1 \<and>
   map fst (history (snd (migrate_carmis_for_goods sparse_env 7 (JInt 5) MigrationEngine_init))) =
     [CreateVirtualInventory 7, CreateVirtualStockItem (JInt 1) ''LLL'',
      BindVirtualInventory (JInt 5) (JInt 1)]"
  by (simp add: sparse_env_def sparse_carmis_def terse_client_def engine_defs demo_defs
      range_step.simps)

theorem stock_migration_calls_witness:
  "\<not> dry_run (opts (demo_env False 2)) \<and> 0 < batch_size (opts (demo_env False 2)) \<and>
   get_carmis_by_goods (reader (demo_env False 2)) 7 = Inr demo_carmis \<and> demo_carmis \<noteq> [] \<and>
   normal_items demo_carmis = [''AAA'', ''BBB'', ''CCC''] \<and>
   batches_of 2 [''AAA'', ''BBB'', ''CCC''] = [[''AAA'', ''BBB''], [''CCC'']] \<and>
   (\<exists>impcalls items rest.
      history (snd (migrate_carmis_for_goods (demo_env False 2) 7 (JInt 5) MigrationEngine_init)) =
        (CreateVirtualInventory 7, demo_client [] (CreateVirtualInventory 7)) # impcalls @ items @ rest \<and>
      map fst impcalls =
        [ImportVirtualStock (JInt 1) [''AAA'', ''BBB''], ImportVirtualStock (JInt 1) [''CCC'']] \<and>
      length impcalls = nat \<lceil>real 3 / real 2\<rceil>) \<and>
   map fst (history (snd (migrate_carmis_for_goods (demo_env False 2) 7 (JInt 5) MigrationEngine_init))) =
     [CreateVirtualInventory 7,
      ImportVirtualStock (JInt 1) [''AAA'', ''BBB''], ImportVirtualStock (JInt 1) [''CCC''],
      CreateVirtualStockItem (JInt 1) ''LLL'', ReserveStockItem (JInt 1) (JInt 103),
      BindVirtualInventory (JInt 5) (JInt 1)]"
proof -
  have h1: "\<not> dry_run (opts (demo_env False 2))"
    and h2: "0 < batch_size (opts (demo_env False 2))"
    and h3: "get_carmis_by_goods (reader (demo_env False 2)) 7 = Inr demo_carmis"
    and h4: "demo_carmis \<noteq> []"
    by (simp_all add: demo_defs)
  have h5: "client (demo_env False 2) (history MigrationEngine_init) (CreateVirtualInventory 7)
        = Inr (JDict [(''id'', JInt 1), (''stock'', JDict [(''id'', JInt 100)])])"
    by (simp add: demo_defs MigrationEngine_init_def)
  have h6: "extract_id (JDict [(''id'', JInt 1), (''stock'', JDict [(''id'', JInt 100)])]) = Inr (JInt 1)"
    by (simp add: extract_id_def)
  have h7: "truthy (JInt 1)" by simp
  have n: "normal_items demo_carmis = [''AAA'', ''BBB'', ''CCC'']"
    by (simp add: normal_items_def demo_carmis_def carmi_text_def)
  have bs: "batches_of 2 [''AAA'', ''BBB'', ''CCC''] = [[''AAA'', ''BBB''], [''CCC'']]"
    by (simp add: batches_of_def range_step.simps)
  have b2: "nat (batch_size (opts (demo_env False 2))) = 2" by (simp add: demo_defs)
  obtain impcalls items rest where
    a: "history (snd (migrate_carmis_for_goods (demo_env False 2) 7 (JInt 5) MigrationEngine_init)) =
         history MigrationEngine_init @
         (CreateVirtualInventory 7, Inr (JDict [(''id'', JInt 1), (''stock'', JDict [(''id'', JInt 100)])]))
           # impcalls @ items @ rest"
    and b: "map fst impcalls = map (ImportVirtualStock (JInt 1))
              (batches_of (nat (batch_size (opts (demo_env False 2)))) (normal_items demo_carmis))"
    and c: "length impcalls =
              nat \<lceil>real (length (normal_items demo_carmis)) / real (nat (batch_size (opts (demo_env False 2))))\<rceil>"
    using stock_migration_calls [OF h1 h2 h3 h4 h5 h6 h7, of "JInt 5"] by blast
  have "history (snd (migrate_carmis_for_goods (demo_env False 2) 7 (JInt 5) MigrationEngine_init)) =
        (CreateVirtualInventory 7, demo_client [] (CreateVirtualInventory 7)) # impcalls @ items @ rest \<and>
      map fst impcalls =
        [ImportVirtualStock (JInt 1) [''AAA'', ''BBB''], ImportVirtualStock (JInt 1) [''CCC'']] \<and>
      length impcalls = nat \<lceil>real 3 / real 2\<rceil>"
    using a b c unfolding b2 n bs by (simp add: MigrationEngine_init_def demo_client_def)
  then have e: "\<exists>impcalls items rest.
      history (snd (migrate_carmis_for_goods (demo_env False 2) 7 (JInt 5) MigrationEngine_init)) =
        (CreateVirtualInventory 7, demo_client [] (CreateVirtualInventory 7)) # impcalls @ items @ rest \<and>
      map fst impcalls =
        [ImportVirtualStock (JInt 1) [''AAA'', ''BBB''], ImportVirtualStock (JInt 1) [''CCC'']] \<and>
      length impcalls = nat \<lceil>real 3 / real 2\<rceil>"
    by (intro exI[of _ impcalls] exI[of _ items] exI[of _ rest])
  have f: "map fst (history (snd (migrate_carmis_for_goods (demo_env False 2) 7 (JInt 5)
                                    MigrationEngine_init))) =
     [CreateVirtualInventory 7,
      ImportVirtualStock (JInt 1) [''AAA'', ''BBB''], ImportVirtualStock (JInt 1) [''CCC''],
      CreateVirtualStockItem (JInt 1) ''LLL'', ReserveStockItem (JInt 1) (JInt 103),
      BindVirtualInventory (JInt 5) (JInt 1)]"
    by (simp add: engine_defs demo_defs range_step.simps)
  from h1 h2 h3 h4 n bs e f show ?thesis
    by (intro conjI)
qed

section \<open>The product map after the product stage\<close>

lemma products_loop_append:
  "migrate_products_loop ev (xs @ ys) s = migrate_products_loop ev ys (migrate_products_loop ev xs s)"
  by (induction xs arbitrary: s) simp_all

lemma migrate_product_commit:
  assumes "\<not> dry_run (opts ev)"
  shows "product_map (migrate_product ev g s) =
           (case created_id ev g s of
              None \<Rightarrow> product_map s
            | Some pid \<Rightarrow> AList.update (g_id g) pid (product_map s))"
    and "stats (migrate_product ev g s) products_failed =
           stats s products_failed + (case created_id ev g s of None \<Rightarrow> 1 | Some pid \<Rightarrow> 0)"
    and "stats (migrate_product ev g s) products_created =
           stats s products_created + (case created_id ev g s of None \<Rightarrow> 0 | Some pid \<Rightarrow> 1)"
  using assms
  by (simp_all add: migrate_product_def product_try_def call_api_eq created_id_def
      split: sum.splits)

lemma map_of_migrate_product_other:
  "g_id g \<noteq> k \<Longrightarrow> map_of (product_map (migrate_product ev g s)) k = map_of (product_map s) k"
  by (simp add: migrate_product_def product_try_def call_api_eq AList.update_conv'
      split: sum.splits)

lemma map_of_products_loop_other:
  "k \<notin> g_id ` set gs \<Longrightarrow>
   map_of (product_map (migrate_products_loop ev gs s)) k = map_of (product_map s) k"
  by (induction gs arbitrary: s) (auto simp: map_of_migrate_product_other)

text \<open>
  Claim C2, for the product stage in commit mode. The rows of the source have distinct
  identifiers and the product map has no entry for them when the stage starts (it
  starts empty). Take any row \<open>g\<close> of the stage's list, and let \<open>s1\<close> be the engine when
  its turn comes. After the whole stage the product map has an entry for \<open>g\<close> exactly
  when the create-product call for \<open>g\<close> returned an extractable identifier, and the
  entry is that identifier. When the call raised or no identifier could be extracted
  (or the payload could not be built), the turn of \<open>g\<close> adds one to \<^verbatim>\<open>products_failed\<close>
  and leaves the product map as it was.
\<close>

theorem product_mapped_iff_id_returned:
  assumes "\<not> dry_run (opts ev)"
      and "get_goods (reader ev) (skip_disabled (opts ev)) = Inr (pre @ g # post)"
      and "distinct (map g_id (pre @ g # post))"
      and "\<forall>x \<in> set (pre @ g # post). map_of (product_map s) (g_id x) = None"
      and "s1 = migrate_products_loop ev pre (log_add (Info (FoundGoods (length (pre @ g # post)))) s)"
  shows "map_of (product_map (snd (migrate_products ev s))) (g_id g) = created_id ev g s1 \<and>
         (created_id ev g s1 = None \<longrightarrow>
            stats (migrate_product ev g s1) products_failed = stats s1 products_failed + 1 \<and>
            product_map (migrate_product ev g s1) = product_map s1)"
proof -
  define s0 where "s0 = log_add (Info (FoundGoods (length (pre @ g # post)))) s"
  have s1: "s1 = migrate_products_loop ev pre s0" by (simp add: assms(5) s0_def)
  have fin: "snd (migrate_products ev s) = migrate_products_loop ev post (migrate_product ev g s1)"
    using assms(2) by (simp add: migrate_products_def products_loop_append s1 s0_def)
  have notin: "g_id g \<notin> g_id ` set pre" "g_id g \<notin> g_id ` set post"
    using assms(3) by auto
  have before: "map_of (product_map s1) (g_id g) = None"
    using assms(4) by (simp add: s1 map_of_products_loop_other[OF notin(1)] s0_def)
  have turn: "map_of (product_map (migrate_product ev g s1)) (g_id g) = created_id ev g s1"
    using before by (simp add: migrate_product_commit(1)[OF assms(1)] AList.update_conv'
        split: option.splits)
  have "map_of (product_map (snd (migrate_products ev s))) (g_id g) = created_id ev g s1"
    by (simp add: fin map_of_products_loop_other[OF notin(2)] turn)
  moreover have "created_id ev g s1 = None \<longrightarrow>
            stats (migrate_product ev g s1) products_failed = stats s1 products_failed + 1 \<and>
            product_map (migrate_product ev g s1) = product_map s1"
    by (simp add: migrate_product_commit[OF assms(1)])
  ultimately show ?thesis by simp
qed

lemmas flaky_defs = flaky_env_def flaky_client_def two_goods_def demo_reader_def

theorem product_mapped_iff_id_returned_witness:
  "\<not> dry_run (opts flaky_env) \<and>
   get_goods (reader flaky_env) (skip_disabled (opts flaky_env)) = Inr ([hd two_goods] @ last two_goods # []) \<and>
   distinct (map g_id ([hd two_goods] @ last two_goods # [])) \<and>
   created_id flaky_env (last two_goods)
     (migrate_products_loop flaky_env [hd two_goods]
        (log_add (Info (FoundGoods 2)) MigrationEngine_init)) = None \<and>
   map_of (product_map (snd (migrate_products flaky_env MigrationEngine_init))) 8 = None \<and>
   map_of (product_map (snd (migrate_products flaky_env MigrationEngine_init))) 7 = Some (JInt 41) \<and>
   stats (snd (migrate_products flaky_env MigrationEngine_init)) products_failed = 1"
proof -
  define s1 where "s1 = migrate_products_loop flaky_env [hd two_goods]
        (log_add (Info (FoundGoods (length ([hd two_goods] @ last two_goods # [])))) MigrationEngine_init)"
  have h1: "\<not> dry_run (opts flaky_env)"
    and h2: "get_goods (reader flaky_env) (skip_disabled (opts flaky_env)) =
             Inr ([hd two_goods] @ last two_goods # [])"
    and h3: "distinct (map g_id ([hd two_goods] @ last two_goods # []))"
    and h4: "\<forall>x \<in> set ([hd two_goods] @ last two_goods # []).
               map_of (product_map MigrationEngine_init) (g_id x) = None"
    by (simp_all add: flaky_defs MigrationEngine_init_def)
  have c: "created_id flaky_env (last two_goods) s1 = None"
    by (simp add: s1_def created_id_def engine_defs flaky_defs)
  have rest: "map_of (product_map (snd (migrate_products flaky_env MigrationEngine_init))) 7 = Some (JInt 41)"
     "stats (snd (migrate_products flaky_env MigrationEngine_init)) products_failed = 1"
    by (simp_all add: engine_defs flaky_defs)
  have g: "g_id (last two_goods) = 8" by (simp add: two_goods_def)
  show ?thesis
    using product_mapped_iff_id_returned [OF h1 h2 h3 h4 s1_def] h1 h2 h3 c rest g
    by (simp add: s1_def numeral_2_eq_2)
qed

section \<open>Integers print to different strings\<close>

lemma of_char_digit: "d < 10 \<Longrightarrow> of_char (digit_char d) = 48 + d"
  by (simp add: digit_char_def)

lemma digit_char_inj: "d < 10 \<Longrightarrow> e < 10 \<Longrightarrow> digit_char d = digit_char e \<Longrightarrow> d = e"
  by (metis of_char_digit add_left_cancel)

lemma digit_char_not_minus: "d < 10 \<Longrightarrow> digit_char d \<noteq> CHR ''-''"
proof
  assume "d < 10" "digit_char d = CHR ''-''"
  then have "(of_char (digit_char d) :: nat) = of_char CHR ''-''" by simp
  with \<open>d < 10\<close> show False by (simp add: of_char_digit)
qed

lemma str_nat_nonempty: "str_nat n \<noteq> []"
  by (subst str_nat.simps) simp

lemma str_nat_digits: "c \<in> set (str_nat n) \<Longrightarrow> \<exists>d<10. c = digit_char d"
proof (induction n rule: str_nat.induct)
  case (1 n)
  show ?case
  proof (cases "n < 10")
    case True
    with 1(2) show ?thesis by (subst (asm) str_nat.simps) auto
  next
    case False
    from 1(2) have "c \<in> set (str_nat (n div 10)) \<or> c = digit_char (n mod 10)"
      using False by (subst (asm) str_nat.simps) auto
    then show ?thesis
    proof
      assume "c \<in> set (str_nat (n div 10))"
      with 1(1) False show ?thesis by simp
    next
      assume "c = digit_char (n mod 10)"
      moreover have "n mod 10 < 10" by simp
      ultimately show ?thesis by blast
    qed
  qed
qed

lemma str_nat_inj: "str_nat n = str_nat m \<Longrightarrow> n = m"
proof (induction n arbitrary: m rule: str_nat.induct)
  case (1 n)
  show ?case
  proof (cases "n < 10")
    case n: True
    show ?thesis
    proof (cases "m < 10")
      case True
      with n 1(2) show ?thesis
        by (simp add: str_nat.simps[of n] str_nat.simps[of m] digit_char_inj)
    next
      case False
      with n 1(2) have "[digit_char n] = str_nat (m div 10) @ [digit_char (m mod 10)]"
        by (simp add: str_nat.simps[of n] str_nat.simps[of m])
      then have "str_nat (m div 10) = []" by (simp add: Cons_eq_append_conv)
      with str_nat_nonempty show ?thesis by blast
    qed
  next
    case n: False
    show ?thesis
    proof (cases "m < 10")
      case True
      with n 1(2) have "str_nat (n div 10) @ [digit_char (n mod 10)] = [digit_char m]"
        by (simp add: str_nat.simps[of n] str_nat.simps[of m])
      then have "str_nat (n div 10) = []" by (simp add: append_eq_Cons_conv)
      with str_nat_nonempty show ?thesis by blast
    next
      case False
      with n 1(2) have "str_nat (n div 10) @ [digit_char (n mod 10)] =
          str_nat (m div 10) @ [digit_char (m mod 10)]"
        by (simp add: str_nat.simps[of n] str_nat.simps[of m])
      then have a: "str_nat (n div 10) = str_nat (m div 10)"
        and b: "digit_char (n mod 10) = digit_char (m mod 10)" by simp_all
      from 1(1)[OF n a] have "n div 10 = m div 10" .
      moreover from b have "n mod 10 = m mod 10" by (rule digit_char_inj[rotated 2]) simp_all
      ultimately show ?thesis by (metis div_mult_mod_eq)
    qed
  qed
qed

lemma str_nat_no_minus: "hd (str_nat n) \<noteq> CHR ''-''"
proof -
  have "hd (str_nat n) \<in> set (str_nat n)" using str_nat_nonempty by simp
  then obtain d where "d < 10" "hd (str_nat n) = digit_char d"
    using str_nat_digits by blast
  then show ?thesis by (simp add: digit_char_not_minus)
qed

lemma str_int_inj: "str_int i = str_int j \<Longrightarrow> i = j"
proof -
  assume e: "str_int i = str_int j"
  consider "i < 0" "j < 0" | "i < 0" "\<not> j < 0" | "\<not> i < 0" "j < 0" | "\<not> i < 0" "\<not> j < 0"
    by blast
  then show ?thesis
  proof cases
    case 1
    with e have "nat (- i) = nat (- j)" by (simp add: str_int_def str_nat_inj)
    with 1 show ?thesis by simp
  next
    case 2
    with e have "hd (str_nat (nat j)) = CHR ''-''" by (simp add: str_int_def) (metis list.sel(1))
    with str_nat_no_minus show ?thesis by blast
  next
    case 3
    with e have "hd (str_nat (nat i)) = CHR ''-''" by (simp add: str_int_def)
    with str_nat_no_minus show ?thesis by blast
  next
    case 4
    with e have "nat i = nat j" by (simp add: str_int_def str_nat_inj)
    with 4 show ?thesis by simp
  qed
qed


section \<open>Which maps a stage can change\<close>

lemma maps_import_batches:
  "product_map (import_batches ev v items starts s) = product_map s"
  "vinv_map (import_batches ev v items starts s) = vinv_map s"
  by (induction starts arbitrary: s) (simp_all add: call_api_eq Let_def split: sum.splits)

lemma maps_loop_item_try:
  "product_map (snd (loop_item_try ev v c s)) = product_map s"
  "vinv_map (snd (loop_item_try ev v c s)) = vinv_map s"
  by (simp_all add: loop_item_try_def call_api_eq split: sum.splits)

lemma maps_import_loop_items:
  "product_map (import_loop_items ev v cs s) = product_map s"
  "vinv_map (import_loop_items ev v cs s) = vinv_map s"
  by (induction cs arbitrary: s)
     (simp_all only: import_loop_items.simps(1) import_loop_items_Cons,
      simp_all add: maps_loop_item_try split: sum.splits)

lemma maps_bind_step:
  "product_map (snd (bind_step ev p v s)) = product_map s"
  "vinv_map (snd (bind_step ev p v s)) = vinv_map s"
  by (simp_all add: bind_step_def call_api_eq split: sum.splits)

lemma maps_import_and_bind:
  "product_map (snd (import_and_bind ev p v carmis s)) = product_map s"
  "vinv_map (snd (import_and_bind ev p v carmis s)) = vinv_map s"
  by (simp_all add: import_and_bind_def Let_def maps_bind_step maps_import_loop_items
      maps_import_batches)

lemma product_map_carmis_for_goods:
  "product_map (snd (migrate_carmis_for_goods ev gid pid s)) = product_map s"
  by (simp add: migrate_carmis_for_goods_def call_api_eq maps_import_and_bind split: sum.splits)

lemma product_map_carmis_unit: "product_map (migrate_carmis_unit ev gp s) = product_map s"
  by (simp add: migrate_carmis_unit_eq product_map_carmis_for_goods split: sum.splits)

lemma product_map_carmis_loop: "product_map (migrate_carmis_loop ev todo s) = product_map s"
  by (induction todo arbitrary: s) (simp_all add: product_map_carmis_unit)

lemma product_map_migrate_carmis: "product_map (snd (migrate_carmis ev s)) = product_map s"
  by (simp add: migrate_carmis_def product_map_carmis_loop split: sum.splits)

lemma product_map_coupons_loop: "product_map (migrate_coupons_loop ev cs s) = product_map s"
  by (induction cs arbitrary: s) (simp_all add: product_map_migrate_coupon)

lemma product_map_migrate_coupons: "product_map (snd (migrate_coupons ev s)) = product_map s"
  by (simp add: migrate_coupons_def product_map_coupons_loop split: sum.splits)

lemma vinv_map_migrate_product: "vinv_map (migrate_product ev g s) = vinv_map s"
  by (simp add: migrate_product_def product_try_def call_api_eq split: sum.splits)

lemma vinv_map_products_loop: "vinv_map (migrate_products_loop ev gs s) = vinv_map s"
  by (induction gs arbitrary: s) (simp_all add: vinv_map_migrate_product)

lemma vinv_map_migrate_products: "vinv_map (snd (migrate_products ev s)) = vinv_map s"
  by (simp add: migrate_products_def vinv_map_products_loop split: sum.splits)

lemma vinv_map_migrate_coupon: "vinv_map (migrate_coupon ev cp s) = vinv_map s"
  by (simp add: migrate_coupon_def coupon_try_def call_api_eq split: sum.splits)

lemma vinv_map_coupons_loop: "vinv_map (migrate_coupons_loop ev cs s) = vinv_map s"
  by (induction cs arbitrary: s) (simp_all add: vinv_map_migrate_coupon)

lemma vinv_map_migrate_coupons: "vinv_map (snd (migrate_coupons ev s)) = vinv_map s"
  by (simp add: migrate_coupons_def vinv_map_coupons_loop split: sum.splits)

section \<open>The maps stay dictionaries, and hold only the sentinel in simulate mode\<close>



lemma set_update_subset: "set (AList.update k v al) \<subseteq> insert (k, v) (set al)"
  by (induction al) auto

lemma dict_ok_update:
  "dict_ok d m \<Longrightarrow> (d \<longrightarrow> v = JInt (- 1)) \<Longrightarrow> dict_ok d (AList.update k v m)"
  using set_update_subset[of k v m]
  by (auto simp: dict_ok_def AList.distinct_update)

lemma dict_ok_migrate_product:
  "dict_ok (dry_run (opts ev)) (product_map s) \<Longrightarrow>
   dict_ok (dry_run (opts ev)) (product_map (migrate_product ev g s))"
  by (cases "dry_run (opts ev)")
     (auto simp: migrate_product_def product_try_def call_api_eq split: sum.splits
       intro!: dict_ok_update)

lemma dict_ok_products_loop:
  "dict_ok (dry_run (opts ev)) (product_map s) \<Longrightarrow>
   dict_ok (dry_run (opts ev)) (product_map (migrate_products_loop ev gs s))"
  by (induction gs arbitrary: s) (simp_all add: dict_ok_migrate_product)

lemma dict_ok_migrate_products:
  "dict_ok (dry_run (opts ev)) (product_map s) \<Longrightarrow>
   dict_ok (dry_run (opts ev)) (product_map (snd (migrate_products ev s)))"
  by (simp add: migrate_products_def dict_ok_products_loop split: sum.splits)

lemma dict_ok_carmis_for_goods:
  "dict_ok (dry_run (opts ev)) (vinv_map s) \<Longrightarrow>
   dict_ok (dry_run (opts ev)) (vinv_map (snd (migrate_carmis_for_goods ev gid pid s)))"
  by (cases "dry_run (opts ev)")
     (auto simp: migrate_carmis_for_goods_def call_api_eq maps_import_and_bind split: sum.splits
       intro!: dict_ok_update)

lemma dict_ok_carmis_unit:
  "dict_ok (dry_run (opts ev)) (vinv_map s) \<Longrightarrow>
   dict_ok (dry_run (opts ev)) (vinv_map (migrate_carmis_unit ev gp s))"
  by (simp add: migrate_carmis_unit_eq dict_ok_carmis_for_goods split: sum.splits)

lemma dict_ok_carmis_loop:
  "dict_ok (dry_run (opts ev)) (vinv_map s) \<Longrightarrow>
   dict_ok (dry_run (opts ev)) (vinv_map (migrate_carmis_loop ev todo s))"
  by (induction todo arbitrary: s) (simp_all add: dict_ok_carmis_unit)

lemma dict_ok_migrate_carmis:
  "dict_ok (dry_run (opts ev)) (vinv_map s) \<Longrightarrow>
   dict_ok (dry_run (opts ev)) (vinv_map (snd (migrate_carmis ev s)))"
  by (simp add: migrate_carmis_def dict_ok_carmis_loop split: sum.splits)

lemma dict_ok_after_coupons:
  "dict_ok (dry_run (opts ev)) (product_map (after_coupons ev MigrationEngine_init))"
  "dict_ok (dry_run (opts ev)) (vinv_map (after_coupons ev MigrationEngine_init))"
proof -
  have 0: "dict_ok (dry_run (opts ev)) (product_map MigrationEngine_init)"
          "dict_ok (dry_run (opts ev)) (vinv_map MigrationEngine_init)"
    by (simp_all add: dict_ok_def MigrationEngine_init_def)
  have 1: "dict_ok (dry_run (opts ev)) (product_map (after_products ev MigrationEngine_init))"
          "dict_ok (dry_run (opts ev)) (vinv_map (after_products ev MigrationEngine_init))"
    using 0 by (simp_all add: after_products_def stage_def dict_ok_migrate_products
        vinv_map_migrate_products)
  have 2: "dict_ok (dry_run (opts ev)) (product_map (after_carmis ev MigrationEngine_init))"
          "dict_ok (dry_run (opts ev)) (vinv_map (after_carmis ev MigrationEngine_init))"
    using 1 by (simp_all add: after_carmis_def stage_def dict_ok_migrate_carmis
        product_map_migrate_carmis)
  show "dict_ok (dry_run (opts ev)) (product_map (after_coupons ev MigrationEngine_init))"
       "dict_ok (dry_run (opts ev)) (vinv_map (after_coupons ev MigrationEngine_init))"
    using 2 by (simp_all add: after_coupons_def stage_def product_map_migrate_coupons
        vinv_map_migrate_coupons)
qed

section \<open>The mapping file\<close>

lemma str_keys_snoc: "str_keys (m @ [kv]) = AList.update (str_int (fst kv)) (snd kv) (str_keys m)"
  by (simp add: str_keys_def)

lemma str_keys_facts:
  "distinct (map fst m) \<Longrightarrow>
     map_of (str_keys m) (str_int k) = map_of m k \<and>
     fst ` set (str_keys m) = str_int ` fst ` set m \<and>
     snd ` set (str_keys m) \<subseteq> snd ` set m"
proof (induction m rule: rev_induct)
  case Nil
  show ?case by (simp add: str_keys_def)
next
  case (snoc kv m)
  then have ih: "map_of (str_keys m) (str_int k) = map_of m k"
      "fst ` set (str_keys m) = str_int ` fst ` set m"
      "snd ` set (str_keys m) \<subseteq> snd ` set m"
    and fresh: "fst kv \<notin> fst ` set m" by auto
  have a: "map_of (str_keys (m @ [kv])) (str_int k) = map_of (m @ [kv]) k"
  proof (cases "k = fst kv")
    case True
    with fresh have "map_of m k = None" by (simp add: map_of_eq_None_iff)
    with True show ?thesis
      by (cases kv) (simp add: str_keys_snoc AList.update_conv' map_add_def)
  next
    case False
    then have "str_int k \<noteq> str_int (fst kv)" using str_int_inj by blast
    with False ih(1) show ?thesis
      by (cases kv) (simp add: str_keys_snoc AList.update_conv' map_add_def split: option.splits)
  qed
  have b: "fst ` set (str_keys (m @ [kv])) = str_int ` fst ` set (m @ [kv])"
    using ih(2) by (simp add: str_keys_snoc AList.dom_update)
  have "snd ` set (str_keys (m @ [kv])) \<subseteq> snd ` insert (str_int (fst kv), snd kv) (set (str_keys m))"
    unfolding str_keys_snoc by (rule image_mono) (rule set_update_subset)
  then have c: "snd ` set (str_keys (m @ [kv])) \<subseteq> snd ` set (m @ [kv])"
    using ih(3) by auto
  from a b c show ?case by blast
qed

lemma str_keys_lookup:
  "distinct (map fst m) \<Longrightarrow> map_of (str_keys m) (str_int k) = map_of m k"
  using str_keys_facts[of m k] by simp

lemma str_keys_keys:
  "distinct (map fst m) \<Longrightarrow> fst ` set (str_keys m) = str_int ` fst ` set m"
  using str_keys_facts[of m 0] by simp

lemma str_keys_values:
  "distinct (map fst m) \<Longrightarrow> kv \<in> set (str_keys m) \<Longrightarrow> snd kv \<in> snd ` set m"
  using str_keys_facts[of m 0] by auto

lemma dict_ok_str_keys:
  assumes "dict_ok True m" and "kv \<in> set (str_keys m)"
  shows "snd kv = JInt (- 1)"
proof -
  from assms(1) have d: "distinct (map fst m)" by (simp add: dict_ok_def)
  from str_keys_values[OF d assms(2)] obtain kv' where "kv' \<in> set m" "snd kv = snd kv'"
    by auto
  with assms(1) show ?thesis by (simp add: dict_ok_def)
qed

text \<open>
  Claim C10. A run that reaches its end (no query of the reader outside a unit raised)
  writes the mapping file. The file holds both maps under the string form of their
  source identifiers: looking up \<^verbatim>\<open>str(k)\<close> in a map of the file gives what the engine's
  map has for \<open>k\<close>, and every key of the file is such a string. This is so in simulate
  mode as well, and there every value in the file is the sentinel \<open>-1\<close>.
\<close>

theorem mapping_file_written:
  assumes "run ev MigrationEngine_init = (Inr (), s)"
  shows "\<exists>f. written s = Some f \<and>
           (\<forall>k. map_of (mf_product_map f) (str_int k) = map_of (product_map s) k) \<and>
           (\<forall>k. map_of (mf_virtual_inventory_map f) (str_int k) = map_of (vinv_map s) k) \<and>
           fst ` set (mf_product_map f) = str_int ` fst ` set (product_map s) \<and>
           fst ` set (mf_virtual_inventory_map f) = str_int ` fst ` set (vinv_map s) \<and>
           (dry_run (opts ev) \<longrightarrow>
              (\<forall>kv \<in> set (mf_product_map f) \<union> set (mf_virtual_inventory_map f).
                 snd kv = JInt (- 1)))"
proof -
  define s3 where "s3 = after_coupons ev MigrationEngine_init"
  have s: "s = print_summary s3"
    using assms run_finished[of ev MigrationEngine_init] by (simp add: s3_def)
  define f where "f = \<lparr>mf_product_map = str_keys (product_map s3),
                        mf_virtual_inventory_map = str_keys (vinv_map s3)\<rparr>"
  have w: "written s = Some f"
    and pm: "product_map s = product_map s3" and vm: "vinv_map s = vinv_map s3"
    by (simp_all add: s print_summary_def f_def)
  have fp: "mf_product_map f = str_keys (product_map s3)"
    and fv: "mf_virtual_inventory_map f = str_keys (vinv_map s3)"
    by (simp_all add: f_def)
  have okp: "dict_ok (dry_run (opts ev)) (product_map s3)"
    and okv: "dict_ok (dry_run (opts ev)) (vinv_map s3)"
    unfolding s3_def by (rule dict_ok_after_coupons)+
  from okp have dp: "distinct (map fst (product_map s3))" by (simp add: dict_ok_def)
  from okv have dv: "distinct (map fst (vinv_map s3))" by (simp add: dict_ok_def)
  have vals: "dry_run (opts ev) \<longrightarrow>
      (\<forall>kv \<in> set (mf_product_map f) \<union> set (mf_virtual_inventory_map f). snd kv = JInt (- 1))"
  proof (intro impI ballI)
    fix kv assume d: "dry_run (opts ev)"
      and kv: "kv \<in> set (mf_product_map f) \<union> set (mf_virtual_inventory_map f)"
    from kv have "kv \<in> set (str_keys (product_map s3)) \<or> kv \<in> set (str_keys (vinv_map s3))"
      by (simp add: fp fv)
    then show "snd kv = JInt (- 1)"
    proof
      assume "kv \<in> set (str_keys (product_map s3))"
      with okp d show ?thesis by (simp add: dict_ok_str_keys)
    next
      assume "kv \<in> set (str_keys (vinv_map s3))"
      with okv d show ?thesis by (simp add: dict_ok_str_keys)
    qed
  qed
  have "written s = Some f \<and>
           (\<forall>k. map_of (mf_product_map f) (str_int k) = map_of (product_map s) k) \<and>
           (\<forall>k. map_of (mf_virtual_inventory_map f) (str_int k) = map_of (vinv_map s) k) \<and>
           fst ` set (mf_product_map f) = str_int ` fst ` set (product_map s) \<and>
           fst ` set (mf_virtual_inventory_map f) = str_int ` fst ` set (vinv_map s) \<and>
           (dry_run (opts ev) \<longrightarrow>
              (\<forall>kv \<in> set (mf_product_map f) \<union> set (mf_virtual_inventory_map f).
                 snd kv = JInt (- 1)))"
    unfolding fp fv pm vm
    using w vals[unfolded fp fv]
    by (simp only: str_keys_lookup[OF dp] str_keys_lookup[OF dv] str_keys_keys[OF dp]
        str_keys_keys[OF dv] simp_thms)
  then show ?thesis by (rule exI)
qed


theorem mapping_file_written_witness:
  "run (demo_env True 2) MigrationEngine_init =
     (Inr (), snd (run (demo_env True 2) MigrationEngine_init)) \<and>
   dry_run (opts (demo_env True 2)) \<and>
   written (snd (run (demo_env True 2) MigrationEngine_init)) =
     Some \<lparr>mf_product_map = [(''7'', JInt (- 1))], mf_virtual_inventory_map = [(''7'', JInt (- 1))]\<rparr> \<and>
   (\<exists>f. written (snd (run (demo_env True 2) MigrationEngine_init)) = Some f \<and>
        map_of (mf_product_map f) (str_int 7) =
          map_of (product_map (snd (run (demo_env True 2) MigrationEngine_init))) 7)"
proof -
  let ?S = "snd (run (demo_env True 2) MigrationEngine_init)"
  have r: "run (demo_env True 2) MigrationEngine_init = (Inr (), ?S)"
    by (simp add: engine_defs demo_defs)
  have d: "dry_run (opts (demo_env True 2))" by (simp add: demo_defs)
  have seven: "str_int 7 = ''7''" by code_simp
  have w: "written ?S =
     Some \<lparr>mf_product_map = [(''7'', JInt (- 1))], mf_virtual_inventory_map = [(''7'', JInt (- 1))]\<rparr>"
    by (simp add: engine_defs demo_defs str_keys_def seven)
  from mapping_file_written [OF r] obtain f where
    F: "written ?S = Some f \<and>
           (\<forall>k. map_of (mf_product_map f) (str_int k) = map_of (product_map ?S) k) \<and>
           (\<forall>k. map_of (mf_virtual_inventory_map f) (str_int k) = map_of (vinv_map ?S) k) \<and>
           fst ` set (mf_product_map f) = str_int ` fst ` set (product_map ?S) \<and>
           fst ` set (mf_virtual_inventory_map f) = str_int ` fst ` set (vinv_map ?S) \<and>
           (dry_run (opts (demo_env True 2)) \<longrightarrow>
              (\<forall>kv \<in> set (mf_product_map f) \<union> set (mf_virtual_inventory_map f).
                 snd kv = JInt (- 1)))" ..
  from F have wf: "written ?S = Some f" by (rule conjunct1)
  from F have "\<forall>k. map_of (mf_product_map f) (str_int k) = map_of (product_map ?S) k"
    by (elim conjE)
  then have q: "map_of (mf_product_map f) (str_int 7) = map_of (product_map ?S) 7"
    by (rule spec)
  from wf q have "\<exists>f. written ?S = Some f \<and>
        map_of (mf_product_map f) (str_int 7) = map_of (product_map ?S) 7"
    by (intro exI[of _ f] conjI)
  with r d w show ?thesis by (intro conjI)
qed

section \<open>The request loop\<close>

lemma then_events_parts [simp]:
  "fst (then_events evs r) = fst r"
  "fst (snd (then_events evs r)) = fst (snd r)"
  "snd (snd (then_events evs r)) = evs @ snd (snd r)"
  by (simp_all add: then_events_def split: prod.splits)

lemma answers_append [simp]: "answers (xs @ ys) = answers xs @ answers ys"
  by (induction xs rule: answers.induct) simp_all

lemma sent_under_append [simp]: "sent_under (xs @ ys) = sent_under xs @ sent_under ys"
  by (induction xs rule: sent_under.induct) simp_all


lemma request_loop_headers:
  "h \<in> set (sent_under (snd (snd (request_loop cfg tr rq as le t)))) \<Longrightarrow> h = rq_session_headers rq"
proof (induction as arbitrary: le t)
  case Nil
  then show ?case by simp
next
  case (Cons a as)
  then show ?case
    by (auto split: prod.splits attempt_outcome.splits sum.splits option.splits if_splits)
qed




lemma request_eq:
  "request cfg tr m p ov kw hdrs t =
     (exit_result cfg
        (fst (request_loop cfg tr
               (the_request cfg m p (fst (snd (apply_overrides ov [] hdrs [])))
                  (snd (snd (apply_overrides ov [] hdrs []))) kw)
               [1 .. retry_count cfg] None t)),
      restore_headers (fst (apply_overrides ov [] hdrs [])) (fst (snd (apply_overrides ov [] hdrs []))),
      fst (snd (request_loop cfg tr
               (the_request cfg m p (fst (snd (apply_overrides ov [] hdrs [])))
                  (snd (snd (apply_overrides ov [] hdrs []))) kw)
               [1 .. retry_count cfg] None t)),
      snd (snd (request_loop cfg tr
               (the_request cfg m p (fst (snd (apply_overrides ov [] hdrs [])))
                  (snd (snd (apply_overrides ov [] hdrs []))) kw)
               [1 .. retry_count cfg] None t)))"
  by (simp add: request_def split: prod.splits)

lemma request_plain:
  "fst (snd (request cfg tr m p [] kw hdrs t)) = hdrs"
  "h \<in> set (sent_under (snd (snd (snd (request cfg tr m p [] kw hdrs t))))) \<Longrightarrow> h = hdrs"
  by (auto simp: request_eq the_request_def dest: request_loop_headers)

lemma request_popped:
  "fst (snd (request cfg tr m p [(k, None)] kw hdrs t)) = hdrs"
  "h \<in> set (sent_under (snd (snd (snd (request cfg tr m p [(k, None)] kw hdrs t))))) \<Longrightarrow>
     h = hdrs(k := None)"
proof -
  show "fst (snd (request cfg tr m p [(k, None)] kw hdrs t)) = hdrs"
    by (cases "hdrs k") (auto simp: request_eq)
  show "h \<in> set (sent_under (snd (snd (snd (request cfg tr m p [(k, None)] kw hdrs t))))) \<Longrightarrow>
     h = hdrs(k := None)"
    by (auto simp: request_eq the_request_def dest: request_loop_headers)
qed

text \<open>
  Claim C8. For every operation of the client, every transport and every way the call
  can end (a parsed body, the terminal error, or any other exception), the session
  headers after the call are the headers before it. During a bulk import every request
  is sent while the session has no \<^verbatim>\<open>Content-Type\<close> header and is otherwise unchanged;
  during any other operation every request is sent under the unchanged headers.
\<close>

theorem content_type_suppressed_for_import_only:
  "fst (snd (perform cfg tr op hdrs t)) = hdrs \<and>
   (\<forall>h \<in> set (sent_under (snd (snd (snd (perform cfg tr op hdrs t))))).
      h = (case op of
             import_virtual_stock inventory_id items \<Rightarrow> hdrs(''Content-Type'' := None)
           | _ \<Rightarrow> hdrs))"
  by (cases op) (auto simp: request_plain(1) request_popped(1) dest: request_plain(2) request_popped(2))

lemma upto_3: "[1 .. 3::int] = [1, 2, 3]"
  by (simp add: upto.simps)

lemmas client_defs = request_def the_request_def exit_result_def then_events_def classify_def
  rate_limit_wait_def demo_config_def refusing_def limited_once_def always_limited_def
  AuraLogicClient_init_def

theorem content_type_suppressed_for_import_only_witness:
  "AuraLogicClient_init (demo_config 3) Map.empty ''Content-Type'' = Some ''application/json'' \<and>
   fst (perform (demo_config 3) refusing (import_virtual_stock 5 [''A'', ''B''])
          (AuraLogicClient_init (demo_config 3) Map.empty) 0) =
     Inl (RuntimeError 3 (Some (RequestException ''connection refused''))) \<and>
   fst (snd (perform (demo_config 3) refusing (import_virtual_stock 5 [''A'', ''B''])
          (AuraLogicClient_init (demo_config 3) Map.empty) 0)) =
     AuraLogicClient_init (demo_config 3) Map.empty \<and>
   sent_under (snd (snd (snd (perform (demo_config 3) refusing (import_virtual_stock 5 [''A'', ''B''])
          (AuraLogicClient_init (demo_config 3) Map.empty) 0)))) =
     [(AuraLogicClient_init (demo_config 3) Map.empty)(''Content-Type'' := None),
      (AuraLogicClient_init (demo_config 3) Map.empty)(''Content-Type'' := None),
      (AuraLogicClient_init (demo_config 3) Map.empty)(''Content-Type'' := None)]"
proof -
  let ?h = "AuraLogicClient_init (demo_config 3) Map.empty"
  let ?r = "perform (demo_config 3) refusing (import_virtual_stock 5 [''A'', ''B'']) ?h 0"
  have a: "?h ''Content-Type'' = Some ''application/json''"
    by (simp add: AuraLogicClient_init_def demo_config_def)
  have n3: "retry_count (demo_config 3) = 3" "retry_delay (demo_config 3) = 1"
    by (simp_all add: demo_config_def)
  have b: "fst ?r = Inl (RuntimeError 3 (Some (RequestException ''connection refused'')))"
    by (simp add: request_eq n3 upto_3 the_request_def exit_result_def then_events_def classify_def
        refusing_def py_sleep_def sleep_limit_def)
  have c: "sent_under (snd (snd (snd ?r))) =
      [?h(''Content-Type'' := None), ?h(''Content-Type'' := None), ?h(''Content-Type'' := None)]"
    by (simp add: request_eq n3 upto_3 the_request_def exit_result_def then_events_def classify_def
        refusing_def py_sleep_def sleep_limit_def)
  have d: "fst (snd ?r) = ?h"
    using content_type_suppressed_for_import_only
      [of "demo_config 3" refusing "import_virtual_stock 5 [''A'', ''B'']" ?h 0]
    by (rule conjunct1)
  from a b d c show ?thesis by (intro conjI)
qed

section \<open>Rate limits and the attempt budget\<close>

lemma length_attempts: "length [1 .. n] = nat n"
  by simp






section \<open>Failures of one unit: caught, logged, and counted where a counter exists\<close>









lemma extends_refl [simp]: "extends s s"
  by (simp add: extends_def)


lemma extends_steps [simp]:
  "extends s s1 \<Longrightarrow> extends s (log_add l s1)"
  "extends s s1 \<Longrightarrow> extends s (incr k n s1)"
  "extends s s1 \<Longrightarrow> extends s (recorded c r s1)"
  "extends s s1 \<Longrightarrow> extends s (s1\<lparr>vinv_map := vm\<rparr>)"
  "extends s s1 \<Longrightarrow> extends s (s1\<lparr>product_map := pm\<rparr>)"
  by (auto simp: extends_def)





























section \<open>Simulate mode and commit mode side by side\<close>

lemma simulated_fields [simp]:
  "reader (simulated ev) = reader ev"
  "client (simulated ev) = client ev"
  "build_product_payload (simulated ev) = build_product_payload ev"
  "dry_run (opts (simulated ev))"
  "batch_size (opts (simulated ev)) = batch_size (opts ev)"
  "skip_disabled (opts (simulated ev)) = skip_disabled (opts ev)"
  "opt_migrate_products (opts (simulated ev)) = opt_migrate_products (opts ev)"
  "opt_migrate_carmis (opts (simulated ev)) = opt_migrate_carmis (opts ev)"
  "opt_migrate_coupons (opts (simulated ev)) = opt_migrate_coupons (opts ev)"
  by (simp_all add: simulated_def)

lemma succeeds_returns:
  assumes "always_succeeds cl"
  obtains r where "cl h c = Inr r"
  using assms unfolding always_succeeds_def
  by (cases "cl h c") (auto dest: spec[of _ h] split: sum.splits)

lemma identified_product:
  assumes "always_succeeds cl" and "answers_identified cl"
  obtains r v b where "cl h (CreateProduct payload) = Inr r" "extract_id r = Inr v" "truthy v"
    "py_gt0 v = Inr b"
proof -
  from assms(1) obtain r where r: "cl h (CreateProduct payload) = Inr r" by (rule succeeds_returns)
  from assms(2) have "case cl h (CreateProduct payload) of
          Inl e \<Rightarrow> True
        | Inr r \<Rightarrow>
            (case extract_id r of
               Inl e \<Rightarrow> False
             | Inr v \<Rightarrow> truthy v \<and> (case py_gt0 v of Inl e \<Rightarrow> False | Inr b \<Rightarrow> True))"
    unfolding answers_identified_def by blast
  with r obtain v b where "extract_id r = Inr v" "truthy v" "py_gt0 v = Inr b"
    by (auto split: sum.splits)
  with r show ?thesis by (rule that)
qed

lemma identified_inventory:
  assumes "always_succeeds cl" and "answers_identified cl"
  obtains r v where "cl h (CreateVirtualInventory gid) = Inr r" "extract_id r = Inr v" "truthy v"
proof -
  from assms(1) obtain r where r: "cl h (CreateVirtualInventory gid) = Inr r"
    by (rule succeeds_returns)
  from assms(2) have "case cl h (CreateVirtualInventory gid) of
          Inl e \<Rightarrow> True
        | Inr r \<Rightarrow> (case extract_id r of Inl e \<Rightarrow> False | Inr v \<Rightarrow> truthy v)"
    unfolding answers_identified_def by blast
  with r obtain v where "extract_id r = Inr v" "truthy v"
    by (auto split: sum.splits)
  with r show ?thesis by (rule that)
qed

lemma readable_stock_answer:
  assumes "always_succeeds cl" and "stock_answers_readable cl"
  obtains r w where "cl h (CreateVirtualStockItem v t) = Inr r" "extract_stock_id r = Inr w"
proof -
  from assms(1) obtain r where r: "cl h (CreateVirtualStockItem v t) = Inr r"
    by (rule succeeds_returns)
  from assms(2) have "case cl h (CreateVirtualStockItem v t) of
          Inl e \<Rightarrow> True
        | Inr r \<Rightarrow> (case extract_stock_id r of Inl e \<Rightarrow> False | Inr w \<Rightarrow> True)"
    unfolding stock_answers_readable_def by blast
  with r obtain w where "extract_stock_id r = Inr w"
    by (auto split: sum.splits)
  with r show ?thesis by (rule that)
qed

lemma sentinel_for_iff:
  "sentinel_for (k, v) (k', v') \<longleftrightarrow> k = k' \<and> v = JInt (- 1) \<and> (\<exists>b. py_gt0 v' = Inr b)"
  by (auto simp: sentinel_for_def split: sum.splits)

lemma sentinel_for_update:
  "list_all2 sentinel_for md mc \<Longrightarrow> (case py_gt0 v of Inl e \<Rightarrow> False | Inr b \<Rightarrow> True) \<Longrightarrow>
   list_all2 sentinel_for (AList.update k (JInt (- 1)) md) (AList.update k v mc)"
proof (induction md mc rule: list_all2_induct)
  case Nil
  then show ?case by (auto simp: sentinel_for_iff split: sum.splits)
next
  case (Cons x xs y ys)
  then show ?case
    by (cases x; cases y) (auto simp: sentinel_for_iff split: sum.splits)
qed

lemma keys_update:
  "map fst md = map fst mc \<Longrightarrow> map fst (AList.update k v md) = map fst (AList.update k w mc)"
  by (simp add: update_keys)

lemma parity_product:
  assumes "parity full sd sc" and "always_succeeds (client ev)" and "answers_identified (client ev)"
      and "\<not> dry_run (opts ev)"
  shows "parity full (migrate_product (simulated ev) g sd) (migrate_product ev g sc)"
proof (cases "build_product_payload ev g")
  case (Inl e)
  with assms(1) show ?thesis
    by (simp add: migrate_product_def product_try_def parity_def)
next
  case (Inr payload)
  from assms(2,3) obtain r v b where
    "client ev (history sc) (CreateProduct payload) = Inr r" "extract_id r = Inr v"
    "truthy v" "py_gt0 v = Inr b"
    by (rule identified_product)
  with assms(1,4) Inr show ?thesis
    by (simp add: migrate_product_def product_try_def call_api_eq parity_def sentinel_for_update)
qed

lemma parity_products_loop:
  assumes "always_succeeds (client ev)" and "answers_identified (client ev)"
      and "\<not> dry_run (opts ev)"
  shows "parity full sd sc \<Longrightarrow>
         parity full (migrate_products_loop (simulated ev) gs sd) (migrate_products_loop ev gs sc)"
  by (induction gs arbitrary: sd sc) (simp_all add: parity_product[OF _ assms])

lemma parity_log_add: "parity full sd sc \<Longrightarrow> parity full (log_add l sd) (log_add l' sc)"
  by (simp add: parity_def)

lemma parity_migrate_products:
  assumes "always_succeeds (client ev)" and "answers_identified (client ev)"
      and "\<not> dry_run (opts ev)" and "parity full sd sc"
  shows "parity full (snd (migrate_products (simulated ev) sd)) (snd (migrate_products ev sc)) \<and>
         fst (migrate_products (simulated ev) sd) = fst (migrate_products ev sc)"
  using assms(4)
  by (simp add: migrate_products_def parity_products_loop[OF assms(1,2,3)] parity_log_add
      split: sum.splits)

lemma parity_log_sim [simp]: "parity full (log_add l sd) sc = parity full sd sc"
  by (simp add: parity_def)

lemma parity_log_com [simp]: "parity full sd (log_add l sc) = parity full sd sc"
  by (simp add: parity_def)

lemma imported_batches:
  assumes "always_succeeds (client ev)"
  shows "stats (import_batches ev v items starts s) carmis_imported =
           stats s carmis_imported +
           int (length (concat (map (\<lambda>i. take (nat (batch_size (opts ev))) (drop i items)) starts)))"
proof (induction starts arbitrary: s)
  case Nil
  show ?case by simp
next
  case (Cons i rest)
  define c where "c = ImportVirtualStock v (take (nat (batch_size (opts ev))) (drop i items))"
  from assms obtain r where r: "client ev (history s) c = Inr r"
    by (rule succeeds_returns)
  show ?case
    using r by (simp add: call_api_eq Let_def c_def[symmetric] Cons.IH)
qed

lemma imported_loop_item:
  assumes "always_succeeds (client ev)" and "stock_answers_readable (client ev)"
  shows "fst (loop_item_try ev v c s) = Inr () \<and>
         stats (snd (loop_item_try ev v c s)) carmis_imported = stats s carmis_imported + 1"
proof -
  from assms obtain r w where r: "client ev (history s) (CreateVirtualStockItem v (carmi_text c)) = Inr r"
    "extract_stock_id r = Inr w"
    by (rule readable_stock_answer)
  from assms(1) obtain r2 where "client ev (history s @ [(CreateVirtualStockItem v (carmi_text c), Inr r)])
       (ReserveStockItem v w) = Inr r2"
    by (rule succeeds_returns)
  with r show ?thesis
    by (simp add: loop_item_try_def call_api_eq)
qed

lemma imported_loop_items:
  assumes "always_succeeds (client ev)" and "stock_answers_readable (client ev)"
  shows "stats (import_loop_items ev v cs s) carmis_imported = stats s carmis_imported + int (length cs)"
proof (induction cs arbitrary: s)
  case Nil
  show ?case by simp
next
  case (Cons c cs)
  show ?case
    using imported_loop_item[OF assms, of v c s]
    by (simp only: import_loop_items_Cons) (simp add: Cons.IH)
qed

lemma imported_import_and_bind:
  assumes "always_succeeds (client ev)" and "stock_answers_readable (client ev)"
      and "0 < batch_size (opts ev)"
  shows "stats (snd (import_and_bind ev p v carmis s)) carmis_imported =
           stats s carmis_imported + int (length (normal_items carmis)) +
           int (length (loop_items carmis))"
proof -
  have b: "0 < nat (batch_size (opts ev))" using assms(3) by simp
  have "concat (map (\<lambda>i. take (nat (batch_size (opts ev))) (drop i (normal_items carmis)))
          (range_step 0 (length (normal_items carmis)) (nat (batch_size (opts ev))))) =
        normal_items carmis"
    using concat_batches[OF b, of "normal_items carmis" 0] by simp
  then show ?thesis
    using assms(3)
    by (simp add: import_and_bind_def Let_def stats_bind_step imported_loop_items[OF assms(1,2)]
        imported_batches[OF assms(1)])
qed

lemma all_text_lengths:
  assumes "\<forall>c \<in> set carmis. carmi_text c \<noteq> []"
  shows "length (normal_items carmis) + length (loop_items carmis) = length carmis"
proof -
  have "normal_items carmis = map carmi_text (filter (\<lambda>c. \<not> is_loop c) carmis)"
    using assms by (simp add: normal_items_def cong: filter_cong)
  moreover have "loop_items carmis = filter is_loop carmis"
    using assms by (simp add: loop_items_def cong: filter_cong)
  ultimately show ?thesis
    using sum_length_filter_compl[of is_loop carmis] by simp
qed

lemma parity_carmis_for_goods:
  assumes "parity full sd sc" and "always_succeeds (client ev)" and "answers_identified (client ev)"
      and "\<not> dry_run (opts ev)"
      and "full \<longrightarrow> 0 < batch_size (opts ev) \<and> all_codes_have_text (reader ev) \<and>
                  stock_answers_readable (client ev)"
  shows "parity full (snd (migrate_carmis_for_goods (simulated ev) gid pd sd))
           (snd (migrate_carmis_for_goods ev gid pc sc))"
proof (cases "get_carmis_by_goods (reader ev) gid")
  case (Inl e)
  with assms(1) show ?thesis by (simp add: migrate_carmis_for_goods_def)
next
  case (Inr carmis)
  show ?thesis
  proof (cases "carmis = []")
    case True
    with Inr assms(1) show ?thesis by (simp add: migrate_carmis_for_goods_def)
  next
    case False
    from assms(2,3) obtain r v where r: "client ev (history sc) (CreateVirtualInventory gid) = Inr r"
      "extract_id r = Inr v" "truthy v"
      by (rule identified_inventory)
    define s1 where "s1 = log_add (Info (CreatedInventory v gid))
        (incr vinv_created 1
           ((recorded (CreateVirtualInventory gid) (Inr r) sc)
              \<lparr>vinv_map := AList.update gid v (vinv_map sc)\<rparr>))"
    define sd1 where "sd1 = incr carmis_imported (int (length carmis))
               (incr vinv_created 1
                  ((log_add (Info (DryRunInventory gid (length carmis))) sd)
                     \<lparr>vinv_map := AList.update gid (JInt (- 1)) (vinv_map sd)\<rparr>))"
    have com: "migrate_carmis_for_goods ev gid pc sc = import_and_bind ev pc v carmis s1"
      using Inr False r assms(4)
      by (simp add: migrate_carmis_for_goods_def call_api_eq s1_def)
    have sim: "snd (migrate_carmis_for_goods (simulated ev) gid pd sd) = sd1"
      using Inr False by (simp add: migrate_carmis_for_goods_def sd1_def)
    let ?sc2 = "snd (import_and_bind ev pc v carmis s1)"
    have pm: "product_map ?sc2 = product_map sc" "product_map sd1 = product_map sd"
      by (simp_all add: maps_import_and_bind s1_def sd1_def incr_def recorded_def log_add_def)
    have vm: "vinv_map ?sc2 = AList.update gid v (vinv_map sc)"
      "vinv_map sd1 = AList.update gid (JInt (- 1)) (vinv_map sd)"
      by (simp_all add: maps_import_and_bind s1_def sd1_def incr_def recorded_def log_add_def)
    have st: "\<And>k. k \<noteq> carmis_imported \<and> k \<noteq> bindings_created \<Longrightarrow>
        stats ?sc2 k = stats sc k + (if k = vinv_created then 1 else 0)"
      by (simp add: stats_import_and_bind s1_def)
    have sdst: "\<And>k. k \<noteq> carmis_imported \<Longrightarrow>
        stats sd1 k = stats sd k + (if k = vinv_created then 1 else 0)"
      "stats sd1 carmis_imported = stats sd carmis_imported + int (length carmis)"
      "history sd1 = history sd"
      by (simp_all add: sd1_def log_add_def incr_def)
    have ci: "full \<longrightarrow> stats ?sc2 carmis_imported = stats sc carmis_imported + int (length carmis)"
    proof
      assume full
      with assms(5) have b: "0 < batch_size (opts ev)" and t: "all_codes_have_text (reader ev)"
        and rd: "stock_answers_readable (client ev)"
        by simp_all
      from t Inr have "\<forall>c \<in> set carmis. carmi_text c \<noteq> []"
        unfolding all_codes_have_text_def by blast
      from all_text_lengths[OF this] imported_import_and_bind[OF assms(2) rd b, of pc v carmis s1]
      show "stats ?sc2 carmis_imported = stats sc carmis_imported + int (length carmis)"
        by (simp add: s1_def)
    qed
    have keys: "map fst (AList.update gid (JInt (- 1)) (vinv_map sd)) =
                map fst (AList.update gid v (vinv_map sc))"
      using assms(1) by (intro keys_update) (simp add: parity_def)
    have "parity full sd1 ?sc2"
      unfolding parity_def pm vm
      using assms(1) st sdst ci keys
      by (simp add: parity_def)
    then show ?thesis by (simp only: com sim)
  qed
qed

lemma parity_carmis_unit:
  assumes "parity full sd sc" and "always_succeeds (client ev)" and "answers_identified (client ev)"
      and "\<not> dry_run (opts ev)"
      and "full \<longrightarrow> 0 < batch_size (opts ev) \<and> all_codes_have_text (reader ev) \<and>
                  stock_answers_readable (client ev)"
      and "fst gd = fst gc"
  shows "parity full (migrate_carmis_unit (simulated ev) gd sd) (migrate_carmis_unit ev gc sc)"
  using parity_carmis_for_goods[OF assms(1-5), of "fst gc" "snd gd" "snd gc"] assms(6)
  by (simp add: migrate_carmis_unit_eq split: sum.splits)

lemma parity_carmis_loop:
  assumes "always_succeeds (client ev)" and "answers_identified (client ev)"
      and "\<not> dry_run (opts ev)"
      and "full \<longrightarrow> 0 < batch_size (opts ev) \<and> all_codes_have_text (reader ev) \<and>
                  stock_answers_readable (client ev)"
  shows "list_all2 sentinel_for xs ys \<Longrightarrow> parity full sd sc \<Longrightarrow>
         parity full (migrate_carmis_loop (simulated ev) xs sd) (migrate_carmis_loop ev ys sc)"
proof (induction xs ys arbitrary: sd sc rule: list_all2_induct)
  case Nil
  then show ?case by simp
next
  case (Cons x xs y ys)
  from Cons.hyps(1) have "fst x = fst y" by (simp add: sentinel_for_def)
  from parity_carmis_unit[OF Cons.prems assms this] Cons.IH show ?case by simp
qed

lemma goods_with_carmis_parity:
  "list_all2 sentinel_for md mc \<Longrightarrow>
     (\<exists>e. goods_with_carmis rd md = Inl e \<and> goods_with_carmis rd mc = Inl e) \<or>
     (\<exists>xs ys. goods_with_carmis rd md = Inr xs \<and> goods_with_carmis rd mc = Inr ys \<and>
              list_all2 sentinel_for xs ys)"
proof (induction md mc rule: list_all2_induct)
  case Nil
  show ?case by simp
next
  case (Cons x md y mc)
  obtain k v where x: "x = (k, v)" by (cases x)
  obtain k' v' where y: "y = (k', v')" by (cases y)
  from Cons.hyps(1) have k: "k' = k" by (simp add: x y sentinel_for_def)
  show ?case
  proof (cases "get_carmis_count rd k")
    case (Inl e)
    then show ?thesis by (simp add: x y k)
  next
    case (Inr cnt)
    from Cons.IH show ?thesis
    proof
      assume "\<exists>e. goods_with_carmis rd md = Inl e \<and> goods_with_carmis rd mc = Inl e"
      then show ?thesis by (auto simp: x y k Inr)
    next
      assume "\<exists>xs ys. goods_with_carmis rd md = Inr xs \<and> goods_with_carmis rd mc = Inr ys \<and>
              list_all2 sentinel_for xs ys"
      then obtain xs ys where "goods_with_carmis rd md = Inr xs" "goods_with_carmis rd mc = Inr ys"
        "list_all2 sentinel_for xs ys" by blast
      with Cons.hyps(1) show ?thesis by (simp add: x y k Inr)
    qed
  qed
qed

lemma parity_migrate_carmis:
  assumes "always_succeeds (client ev)" and "answers_identified (client ev)"
      and "\<not> dry_run (opts ev)"
      and "full \<longrightarrow> 0 < batch_size (opts ev) \<and> all_codes_have_text (reader ev) \<and>
                  stock_answers_readable (client ev)"
      and "parity full sd sc"
  shows "parity full (snd (migrate_carmis (simulated ev) sd)) (snd (migrate_carmis ev sc)) \<and>
         fst (migrate_carmis (simulated ev) sd) = fst (migrate_carmis ev sc)"
proof -
  from assms(5) have pm: "list_all2 sentinel_for (product_map sd) (product_map sc)"
    by (simp add: parity_def)
  show ?thesis
  proof (cases "product_map sd = []")
    case True
    with pm have "product_map sc = []" by simp
    with True assms(5) show ?thesis by (simp add: migrate_carmis_def)
  next
    case False
    with pm have ne: "product_map sc \<noteq> []" by auto
    from goods_with_carmis_parity[OF pm, of "reader ev"] show ?thesis
    proof
      assume "\<exists>e. goods_with_carmis (reader ev) (product_map sd) = Inl e \<and>
                  goods_with_carmis (reader ev) (product_map sc) = Inl e"
      with False ne assms(5) show ?thesis by (auto simp: migrate_carmis_def)
    next
      assume "\<exists>xs ys. goods_with_carmis (reader ev) (product_map sd) = Inr xs \<and>
                      goods_with_carmis (reader ev) (product_map sc) = Inr ys \<and>
                      list_all2 sentinel_for xs ys"
      then obtain xs ys where g: "goods_with_carmis (reader ev) (product_map sd) = Inr xs"
        "goods_with_carmis (reader ev) (product_map sc) = Inr ys" and l: "list_all2 sentinel_for xs ys"
        by blast
      from l have e: "xs = [] \<longleftrightarrow> ys = []" by auto
      have "parity full (migrate_carmis_loop (simulated ev) xs (log_add (Info (FoundCarmis (length xs))) sd))
              (migrate_carmis_loop ev ys (log_add (Info (FoundCarmis (length ys))) sc))"
        by (rule parity_carmis_loop[OF assms(1-4) l]) (simp add: assms(5))
      with False ne g e assms(5) show ?thesis by (simp add: migrate_carmis_def)
    qed
  qed
qed

lemma sentinel_values:
  "list_all2 sentinel_for md mc \<Longrightarrow>
     (\<forall>k v. map_of md k = Some v \<longrightarrow> py_gt0 v = Inr False) \<and>
     (\<forall>k v. map_of mc k = Some v \<longrightarrow> (\<exists>b. py_gt0 v = Inr b))"
proof (induction md mc rule: list_all2_induct)
  case Nil
  show ?case by simp
next
  case (Cons x md y mc)
  then show ?case by (cases x; cases y) (auto simp: sentinel_for_iff)
qed

lemma al_product_ids_total:
  assumes "\<forall>k v. map_of m k = Some v \<longrightarrow> (\<exists>b. py_gt0 v = Inr b)"
  shows "\<exists>ids. al_product_ids m refs = Inr ids"
proof (induction refs)
  case Nil
  show ?case by simp
next
  case (Cons gid rest)
  then obtain ids where ids: "al_product_ids m rest = Inr ids" by blast
  show ?case
  proof (cases "map_of m gid")
    case None
    with ids show ?thesis by simp
  next
    case (Some v)
    with assms obtain b where "py_gt0 v = Inr b" by blast
    with Some ids show ?thesis by simp
  qed
qed

lemma coupon_payload_parity:
  assumes "list_all2 sentinel_for md mc"
  shows "isl (coupon_payload (simulated ev) md cp) = isl (coupon_payload ev mc cp)"
proof -
  from sentinel_values[OF assms]
  have d: "\<forall>k v. map_of md k = Some v \<longrightarrow> (\<exists>b. py_gt0 v = Inr b)"
    and c: "\<forall>k v. map_of mc k = Some v \<longrightarrow> (\<exists>b. py_gt0 v = Inr b)" by blast+
  show ?thesis
  proof (cases "get_coupon_goods (reader ev) (c_id cp)")
    case (Inl e)
    then show ?thesis by (simp add: coupon_payload_def)
  next
    case (Inr refs)
    from al_product_ids_total[OF d, of refs] obtain idsd where "al_product_ids md refs = Inr idsd" ..
    moreover from al_product_ids_total[OF c, of refs] obtain idsc where "al_product_ids mc refs = Inr idsc" ..
    ultimately show ?thesis
      using Inr by (simp add: coupon_payload_def promo_code_payload_def split: option.splits)
  qed
qed

lemma parity_coupon:
  assumes "parity full sd sc" and "always_succeeds (client ev)" and "\<not> dry_run (opts ev)"
  shows "parity full (migrate_coupon (simulated ev) cp sd) (migrate_coupon ev cp sc)"
proof -
  from assms(1) have pm: "list_all2 sentinel_for (product_map sd) (product_map sc)"
    by (simp add: parity_def)
  note iso = coupon_payload_parity[OF pm, of ev cp]
  show ?thesis
  proof (cases "coupon_payload ev (product_map sc) cp")
    case (Inl e)
    with iso obtain e' where "coupon_payload (simulated ev) (product_map sd) cp = Inl e'"
      by (cases "coupon_payload (simulated ev) (product_map sd) cp") auto
    with Inl assms(1) show ?thesis
      by (simp add: migrate_coupon_def coupon_try_def parity_def)
  next
    case (Inr payload)
    with iso obtain payload' where p: "coupon_payload (simulated ev) (product_map sd) cp = Inr payload'"
      by (cases "coupon_payload (simulated ev) (product_map sd) cp") auto
    from assms(2) obtain r where "client ev (history sc) (CreatePromoCode payload) = Inr r"
      by (rule succeeds_returns)
    with Inr p assms(1,3) show ?thesis
      by (simp add: migrate_coupon_def coupon_try_def call_api_eq parity_def)
  qed
qed

lemma parity_coupons_loop:
  assumes "always_succeeds (client ev)" and "\<not> dry_run (opts ev)"
  shows "parity full sd sc \<Longrightarrow>
         parity full (migrate_coupons_loop (simulated ev) cs sd) (migrate_coupons_loop ev cs sc)"
  by (induction cs arbitrary: sd sc) (simp_all add: parity_coupon[OF _ assms])

lemma parity_migrate_coupons:
  assumes "always_succeeds (client ev)" and "\<not> dry_run (opts ev)" and "parity full sd sc"
  shows "parity full (snd (migrate_coupons (simulated ev) sd)) (snd (migrate_coupons ev sc)) \<and>
         fst (migrate_coupons (simulated ev) sd) = fst (migrate_coupons ev sc)"
  using assms(3)
  by (simp add: migrate_coupons_def parity_coupons_loop[OF assms(1,2)] split: sum.splits)

lemma run_eq:
  "run ev s =
     (case get_summary (reader ev) of
        Inl e \<Rightarrow> (Inl e, s)
      | Inr summary \<Rightarrow>
          (case fst (stage (opt_migrate_products (opts ev)) (migrate_products ev) s) of
             Inl e \<Rightarrow> (Inl e, after_products ev s)
           | Inr u1 \<Rightarrow>
               (case fst (stage (opt_migrate_carmis (opts ev)) (migrate_carmis ev) (after_products ev s)) of
                  Inl e \<Rightarrow> (Inl e, after_carmis ev s)
                | Inr u2 \<Rightarrow>
                    (case fst (stage (opt_migrate_coupons (opts ev)) (migrate_coupons ev) (after_carmis ev s)) of
                       Inl e \<Rightarrow> (Inl e, after_coupons ev s)
                     | Inr u3 \<Rightarrow> (Inr (), print_summary (after_coupons ev s))))))"
  by (simp add: run_def after_products_def after_carmis_def after_coupons_def
      split: sum.splits prod.splits)

lemma parity_print_summary [simp]:
  "parity full (print_summary sd) (print_summary sc) = parity full sd sc"
  by (simp add: parity_def print_summary_def)

lemma parity_run:
  assumes "always_succeeds (client ev)" and "answers_identified (client ev)"
      and "\<not> dry_run (opts ev)"
      and "full \<longrightarrow> 0 < batch_size (opts ev) \<and> all_codes_have_text (reader ev) \<and>
                  stock_answers_readable (client ev)"
      and "parity full sd sc"
  shows "parity full (snd (run (simulated ev) sd)) (snd (run ev sc)) \<and>
         fst (run (simulated ev) sd) = fst (run ev sc)"
proof -
  have 1: "parity full (after_products (simulated ev) sd) (after_products ev sc) \<and>
           fst (stage (opt_migrate_products (opts ev)) (migrate_products (simulated ev)) sd) =
           fst (stage (opt_migrate_products (opts ev)) (migrate_products ev) sc)"
    using parity_migrate_products[OF assms(1,2,3,5)] assms(5)
    by (simp add: after_products_def stage_def)
  then have p1: "parity full (after_products (simulated ev) sd) (after_products ev sc)" by simp
  have 2: "parity full (after_carmis (simulated ev) sd) (after_carmis ev sc) \<and>
           fst (stage (opt_migrate_carmis (opts ev)) (migrate_carmis (simulated ev))
                  (after_products (simulated ev) sd)) =
           fst (stage (opt_migrate_carmis (opts ev)) (migrate_carmis ev) (after_products ev sc))"
    using parity_migrate_carmis[OF assms(1,2,3,4) p1] p1
    by (simp add: after_carmis_def stage_def)
  then have p2: "parity full (after_carmis (simulated ev) sd) (after_carmis ev sc)" by simp
  have 3: "parity full (after_coupons (simulated ev) sd) (after_coupons ev sc) \<and>
           fst (stage (opt_migrate_coupons (opts ev)) (migrate_coupons (simulated ev))
                  (after_carmis (simulated ev) sd)) =
           fst (stage (opt_migrate_coupons (opts ev)) (migrate_coupons ev) (after_carmis ev sc))"
    using parity_migrate_coupons[OF assms(1,3) p2] p2
    by (simp add: after_coupons_def stage_def)
  show ?thesis
    using 1 2 3 assms(5)
    by (simp add: run_eq split: sum.splits)
qed

lemma sentinel_for_keys: "list_all2 sentinel_for md mc \<Longrightarrow> map fst md = map fst mc"
  by (induction md mc rule: list_all2_induct) (simp_all add: sentinel_for_def)

lemma parity_init: "parity full MigrationEngine_init MigrationEngine_init"
  by (simp add: parity_def MigrationEngine_init_def)

text \<open>
  Claim C1, as the code has it. Take a run in commit mode against a client whose every
  call returns, and whose answers to the creation of a product and of an inventory
  carry an identifier (a number, for a product), and the same run in simulate mode,
  both from a fresh engine. The two runs end the same way. The simulated run makes no
  call to the API. It agrees with the committed run on every counter except the two of
  stock items and of bindings (products created, skipped and failed, inventories
  created, coupons created and failed), and on the keys of both identifier maps. It
  agrees on the counter of stock items too when the batch size is positive, every
  unsold code has a text, and the answers to the creation of a stock item can be read.
  The binding counter stays at zero in simulate mode: a simulated stock migration
  returns before the bind step.
\<close>

theorem simulate_parity_without_bindings:
  assumes "\<not> dry_run (opts ev)" and "always_succeeds (client ev)"
      and "answers_identified (client ev)"
  shows "fst (run (simulated ev) MigrationEngine_init) = fst (run ev MigrationEngine_init) \<and>
         history (snd (run (simulated ev) MigrationEngine_init)) = [] \<and>
         stats (snd (run (simulated ev) MigrationEngine_init)) bindings_created = 0 \<and>
         (\<forall>k. k \<noteq> carmis_imported \<and> k \<noteq> bindings_created \<longrightarrow>
            stats (snd (run (simulated ev) MigrationEngine_init)) k =
            stats (snd (run ev MigrationEngine_init)) k) \<and>
         (0 < batch_size (opts ev) \<and> all_codes_have_text (reader ev) \<and>
          stock_answers_readable (client ev) \<longrightarrow>
            stats (snd (run (simulated ev) MigrationEngine_init)) carmis_imported =
            stats (snd (run ev MigrationEngine_init)) carmis_imported) \<and>
         map fst (product_map (snd (run (simulated ev) MigrationEngine_init))) =
           map fst (product_map (snd (run ev MigrationEngine_init))) \<and>
         map fst (vinv_map (snd (run (simulated ev) MigrationEngine_init))) =
           map fst (vinv_map (snd (run ev MigrationEngine_init)))"
proof -
  define full where "full \<longleftrightarrow> 0 < batch_size (opts ev) \<and> all_codes_have_text (reader ev) \<and>
      stock_answers_readable (client ev)"
  have f: "full \<longrightarrow> 0 < batch_size (opts ev) \<and> all_codes_have_text (reader ev) \<and>
      stock_answers_readable (client ev)"
    by (simp add: full_def)
  from parity_run[OF assms(2,3,1) f parity_init]
  have p: "parity full (snd (run (simulated ev) MigrationEngine_init)) (snd (run ev MigrationEngine_init))"
    and r: "fst (run (simulated ev) MigrationEngine_init) = fst (run ev MigrationEngine_init)"
    by simp_all
  from p have keys:
    "map fst (product_map (snd (run (simulated ev) MigrationEngine_init))) =
       map fst (product_map (snd (run ev MigrationEngine_init)))"
    "map fst (vinv_map (snd (run (simulated ev) MigrationEngine_init))) =
       map fst (vinv_map (snd (run ev MigrationEngine_init)))"
    by (simp_all add: parity_def sentinel_for_keys)
  from p r keys show ?thesis
    unfolding parity_def full_def by (intro conjI) (elim conjE, assumption)+
qed

text \<open>
  The claim as stated fails on the binding counter. The small store, against the test
  double that always succeeds: the committed run counts one binding, the simulated
  run counts none.
\<close>

theorem simulate_binding_counter_counterexample:
  "always_succeeds (client plain_env) \<and> answers_identified (client plain_env) \<and>
   stock_answers_readable (client plain_env) \<and>
   stats (snd (run (simulated plain_env) MigrationEngine_init)) bindings_created = 0 \<and>
   stats (snd (run plain_env MigrationEngine_init)) bindings_created = 1"
proof -
  have "always_succeeds (client plain_env)"
    by (simp add: always_succeeds_def plain_env_def plain_client_def split: api_call.splits)
  moreover have "answers_identified (client plain_env)"
    by (simp add: answers_identified_def plain_env_def plain_client_def extract_id_def)
  moreover have "stock_answers_readable (client plain_env)"
    by (simp add: stock_answers_readable_def plain_env_def plain_client_def extract_stock_id_def)
  moreover have "stats (snd (run (simulated plain_env) MigrationEngine_init)) bindings_created = 0"
    by (simp add: simulated_def plain_env_def plain_client_def engine_defs demo_defs)
  moreover have "stats (snd (run plain_env MigrationEngine_init)) bindings_created = 1"
    by (simp add: plain_env_def plain_client_def engine_defs demo_defs)
  ultimately show ?thesis by (intro conjI)
qed

theorem simulate_parity_without_bindings_witness:
  "\<not> dry_run (opts plain_env) \<and> always_succeeds (client plain_env) \<and>
   answers_identified (client plain_env) \<and> stock_answers_readable (client plain_env) \<and>
   0 < batch_size (opts plain_env) \<and>
   fst (run plain_env MigrationEngine_init) = Inr () \<and>
   fst (run (simulated plain_env) MigrationEngine_init) = Inr () \<and>
   stats (snd (run plain_env MigrationEngine_init)) carmis_imported = 4 \<and>
   stats (snd (run (simulated plain_env) MigrationEngine_init)) carmis_imported = 4 \<and>
   history (snd (run (simulated plain_env) MigrationEngine_init)) = []"
proof -
  have h1: "\<not> dry_run (opts plain_env)" by (simp add: plain_env_def demo_defs)
  have h2: "always_succeeds (client plain_env)"
    by (simp add: always_succeeds_def plain_env_def plain_client_def split: api_call.splits)
  have h3: "answers_identified (client plain_env)"
    by (simp add: answers_identified_def plain_env_def plain_client_def extract_id_def)
  have h4: "stock_answers_readable (client plain_env)"
    by (simp add: stock_answers_readable_def plain_env_def plain_client_def extract_stock_id_def)
  have b: "0 < batch_size (opts plain_env)" by (simp add: plain_env_def demo_defs)
  have t: "all_codes_have_text (reader plain_env)"
    by (auto simp: all_codes_have_text_def plain_env_def demo_defs carmi_text_def split: if_splits)
  have com: "fst (run plain_env MigrationEngine_init) = Inr ()"
    "stats (snd (run plain_env MigrationEngine_init)) carmis_imported = 4"
    by (simp_all add: plain_env_def plain_client_def engine_defs demo_defs)
  note T = simulate_parity_without_bindings [OF h1 h2 h3]
  from T have r: "fst (run (simulated plain_env) MigrationEngine_init) =
      fst (run plain_env MigrationEngine_init)"
    by (rule conjunct1)
  from T have h: "history (snd (run (simulated plain_env) MigrationEngine_init)) = []"
    by (elim conjE)
  from T have "0 < batch_size (opts plain_env) \<and> all_codes_have_text (reader plain_env) \<and>
          stock_answers_readable (client plain_env) \<longrightarrow>
            stats (snd (run (simulated plain_env) MigrationEngine_init)) carmis_imported =
            stats (snd (run plain_env MigrationEngine_init)) carmis_imported"
    by (elim conjE)
  then have c: "stats (snd (run (simulated plain_env) MigrationEngine_init)) carmis_imported =
            stats (snd (run plain_env MigrationEngine_init)) carmis_imported"
    by (rule mp) (intro conjI b t h4)
  from h1 h2 h3 h4 b com r h c show ?thesis by (simp only: simp_thms)
qed

end
